theory Spec2Isabelle
  imports Main "HOL-Library.AList" "HOL-Library.Sublist"
begin

section \<open>The cross-implementation test driver (ion\_hash\_test\_driver.py)\<close>

text \<open>
  A shallow embedding of \<^verbatim>\<open>src/ionhashtest/ion_hash_test_driver.py\<close>.
  Conventions:
  \<^item> a Python \<^verbatim>\<open>dict\<close> keyed by strings is an association list in insertion order;
    \<^verbatim>\<open>d[k] = v\<close> is \<open>AList.update k v d\<close> (an existing key keeps its position, a new
    key goes to the end);
  \<^item> a path is the list of its components below the file-system root, so
    \<^verbatim>\<open>os.path.join\<close> appends components and \<^verbatim>\<open>os.path.abspath\<close> changes nothing;
    resource names, identifiers and file names are single components;
  \<^item> an open text file is the list of the lines \<^verbatim>\<open>readline()\<close> will still return, each
    as \<^verbatim>\<open>readline()\<close> returns it (line terminator included);
  \<^item> every \<^verbatim>\<open>raise\<close> is a value of type \<open>error\<close> on the left of a sum, and a
    function that can raise returns the state it leaves behind in both cases;
  \<^item> the modules \<^verbatim>\<open>ionhashtest.config\<close>, \<^verbatim>\<open>ionhashtest.util\<close> and
    \<^verbatim>\<open>ionhashtest.test_data\<close>, and the programs the driver starts, are parameters;
  \<^item> \<^verbatim>\<open>print\<close> calls are left out.
\<close>

subsection \<open>Paths, external actions and errors\<close>

type_synonym path = "string list"

text \<open>
  The actions of the driver on its external collaborators, in the order they happen:
  the subprocesses it starts, the install procedure of a resource and the test
  generator.
\<close>

datatype event =
    ToolCheck string string         \<comment> \<open>\<^verbatim>\<open>check_call([path, '--help'])\<close> for the tool \<open>name\<close>\<close>
  | GitClone string string path     \<comment> \<open>\<^verbatim>\<open>git clone --recurse-submodules location tmp_dir\<close>\<close>
  | GitCheckout string string       \<comment> \<open>\<^verbatim>\<open>git checkout revision\<close>\<close>
  | GitSubmoduleUpdate string       \<comment> \<open>\<^verbatim>\<open>git submodule update --init\<close>\<close>
  | GitRevParse string              \<comment> \<open>\<^verbatim>\<open>git rev-parse --short HEAD\<close>\<close>
  | Install string "path option"    \<comment> \<open>\<^verbatim>\<open>self._build.install(self.__build_log)\<close> of the resource \<open>name\<close>\<close>
  | GenerateTests path path         \<comment> \<open>\<^verbatim>\<open>generate_tests(ion_hash_test_dir, test_file)\<close>\<close>
  | Spawn path string path          \<comment> \<open>\<^verbatim>\<open>Popen([executable, algorithm, test_file])\<close>\<close>

datatype error =
    NoInstaller string              \<comment> \<open>\<^verbatim>\<open>ValueError('No installer for %s.')\<close>\<close>
  | NoIdentifier string             \<comment> \<open>\<^verbatim>\<open>ValueError('... must be installed before receiving an identifier.')\<close>\<close>
  | ToolNotFound string             \<comment> \<open>\<^verbatim>\<open>ValueError(name + " not found. ...")\<close>\<close>
  | NotInstalled string             \<comment> \<open>\<^verbatim>\<open>ValueError('Implementation %s has not been installed.')\<close>\<close>
  | NotExecutable string            \<comment> \<open>\<^verbatim>\<open>ValueError('Implementation %s is not executable.')\<close>\<close>
  | ExecutableMissing string        \<comment> \<open>\<^verbatim>\<open>ValueError('Executable for %s does not exist.')\<close>\<close>
  | InvalidDescription              \<comment> \<open>\<^verbatim>\<open>ValueError("Invalid implementation description.")\<close>\<close>
  | KeyError string                 \<comment> \<open>a missing dictionary key\<close>
  | TypeError                       \<comment> \<open>\<^verbatim>\<open>None\<close> where a path is required\<close>
  | CalledProcessError event        \<comment> \<open>a subprocess that exits with a non-zero status\<close>
  | InstallError string             \<comment> \<open>whatever the install procedure of a resource raises\<close>
  | GenerateError                   \<comment> \<open>whatever \<^verbatim>\<open>generate_tests\<close> raises\<close>
  | IOError path                    \<comment> \<open>\<^verbatim>\<open>open\<close> of a path that cannot be opened\<close>
  | OSError path                    \<comment> \<open>a failed \<^verbatim>\<open>os\<close> or \<^verbatim>\<open>shutil\<close> call on the path\<close>

subsection \<open>Resource descriptions: \<^verbatim>\<open>tokenize_description\<close>\<close>

text \<open>\<^verbatim>\<open>str.split(',')\<close>: the pieces between the commas; never the empty list.\<close>

fun split_comma :: "string \<Rightarrow> string list" where
  "split_comma [] = [[]]"
| "split_comma (c # cs) =
     (if c = CHR '','' then [] # split_comma cs
      else (case split_comma cs of
              [] \<Rightarrow> [[c]]
            | w # ws \<Rightarrow> (c # w) # ws))"

datatype tokens =
    Named string string string   \<comment> \<open>\<open>(name, location, revision)\<close>, when \<open>has_name\<close>\<close>
  | Unnamed string string        \<comment> \<open>\<open>(location, revision)\<close> otherwise\<close>

definition tokenize_description :: "string \<Rightarrow> bool \<Rightarrow> error + tokens" where
  "tokenize_description description has_name =
     (let components = split_comma description;
          max_components = (if \<not> has_name then 2 else (3::nat));
          revision = (if length components < max_components then ''master''
                      else components ! (max_components - 1))
      in if length components < max_components - 1 then Inl InvalidDescription
         else if has_name
           then Inr (Named (components ! 0) (components ! (max_components - 2)) revision)
           else Inr (Unnamed (components ! (max_components - 2)) revision))"

subsection \<open>Text lines\<close>

text \<open>
  \<^verbatim>\<open>str.rstrip()\<close> removes trailing whitespace. Characters are bytes here, so the
  whitespace is the ASCII part of what \<^verbatim>\<open>str.isspace\<close> accepts: tab, line feed,
  vertical tab, form feed, carriage return, the four separators 0x1C to 0x1F, and space.
\<close>

definition is_space :: "char \<Rightarrow> bool" where
  "is_space c \<longleftrightarrow> c \<in> {CHR 0x09, CHR 0x0A, CHR 0x0B, CHR 0x0C, CHR 0x0D,
                       CHR 0x1C, CHR 0x1D, CHR 0x1E, CHR 0x1F, CHR 0x20}"

definition rstrip :: "string \<Rightarrow> string" where
  "rstrip s = rev (dropWhile is_space (rev s))"

definition startswith :: "string \<Rightarrow> string \<Rightarrow> bool" where
  "startswith s p \<longleftrightarrow> take (length p) s = p"

type_synonym stream = "string list"

type_synonym 'v dict = "(string \<times> 'v) list"

text \<open>\<^verbatim>\<open>readline()\<close>: the next line, or the empty string at the end of the file.\<close>

definition readline :: "stream \<Rightarrow> string \<times> stream" where
  "readline f = (case f of [] \<Rightarrow> ('''', []) | l # ls \<Rightarrow> (l, ls))"

subsection \<open>The comparator: \<^verbatim>\<open>compare_test\<close>\<close>

text \<open>The three module-level counters.\<close>

record counters =
  digest_no_comparison :: nat
  digest_matches :: nat
  digest_inconsistencies :: nat

datatype symbol = no_comparison | full_match | inconsistent

text \<open>
  One \<^verbatim>\<open>digest_comparison\<close> dictionary. The keys \<^verbatim>\<open>'digest'\<close> and \<^verbatim>\<open>'digests'\<close> are
  present in one branch only, so their fields are optional.
\<close>

record digest_comparison =
  dc_result :: symbol
  dc_digest :: "string option"
  dc_digests :: "string dict list option"
  dc_value :: string

text \<open>What one captured line is recorded as.\<close>

definition recorded_digest :: "string \<Rightarrow> string" where
  "recorded_digest raw =
     (let digest = rstrip raw
      in if startswith digest ''[unable to digest'' then ''[unable to digest]'' else digest)"

text \<open>
  The first loop of \<^verbatim>\<open>compare_test\<close>: one \<^verbatim>\<open>readline()\<close> on every report file, in the
  order of the dictionary; the files advance, \<open>digests\<close> is filled.
\<close>

fun read_digests :: "stream dict \<Rightarrow> string dict \<Rightarrow> stream dict \<times> string dict" where
  "read_digests [] digests = ([], digests)"
| "read_digests ((impl_name, report_file) # rest) digests =
     (let (raw, report_file') = readline report_file;
          (rest', digests') =
             read_digests rest (AList.update impl_name (recorded_digest raw) digests)
      in ((impl_name, report_file') # rest', digests'))"

text \<open>
  The loop of the last branch. \<open>entry\<close> is one dictionary object, and every pass appends
  a reference to that same object to \<open>impl_digests\<close>; the loop state is therefore the
  object and the number of references appended, and the list read after the loop is
  that many copies of the final object.
\<close>

fun fill_entry :: "string dict \<Rightarrow> string dict \<Rightarrow> nat \<Rightarrow> string dict \<times> nat" where
  "fill_entry [] entry n = (entry, n)"
| "fill_entry ((impl_name, digest) # rest) entry n =
     fill_entry rest (AList.update impl_name digest entry) (Suc n)"

definition impl_digests_of :: "string dict \<Rightarrow> string dict list" where
  "impl_digests_of digests = (let (entry, n) = fill_entry digests [] 0 in replicate n entry)"

text \<open>\<open>set(digests.values())\<close>, as the list of the distinct values.\<close>

definition digest_set :: "string dict \<Rightarrow> string list" where
  "digest_set digests = remdups (map snd digests)"

definition compare_test ::
  "string \<Rightarrow> stream dict \<Rightarrow> digest_comparison list \<Rightarrow> counters
     \<Rightarrow> stream dict \<times> digest_comparison list \<times> counters" where
  "compare_test line report_files digest_comparisons g =
     (let (report_files', digests) = read_digests report_files [];
          ds = digest_set digests;
          (digest_comparison, g') =
            (if length ds = 0 then
               (\<lparr>dc_result = no_comparison, dc_digest = None, dc_digests = None,
                 dc_value = line\<rparr>,
                g\<lparr>digest_no_comparison := digest_no_comparison g + 1\<rparr>)
             else if length ds = 1 then
               (\<lparr>dc_result = full_match, dc_digest = Some (hd ds), dc_digests = None,
                 dc_value = line\<rparr>,
                g\<lparr>digest_matches := digest_matches g + 1\<rparr>)
             else
               (\<lparr>dc_result = inconsistent, dc_digest = None,
                 dc_digests = Some (impl_digests_of digests), dc_value = line\<rparr>,
                g\<lparr>digest_inconsistencies := digest_inconsistencies g + 1\<rparr>))
      in (report_files', digest_comparisons @ [digest_comparison], g'))"

subsection \<open>The file system, the process state and the environment\<close>

datatype node = File "string list" | Dir

type_synonym filesys = "path \<Rightarrow> node option"

definition path_exists :: "filesys \<Rightarrow> path \<Rightarrow> bool" where
  "path_exists files p \<longleftrightarrow> files p \<noteq> None"

definition isdir :: "filesys \<Rightarrow> path \<Rightarrow> bool" where
  "isdir files p \<longleftrightarrow> files p = Some Dir"

definition isfile :: "filesys \<Rightarrow> path \<Rightarrow> bool" where
  "isfile files p \<longleftrightarrow> (case files p of Some (File ls) \<Rightarrow> True | _ \<Rightarrow> False)"

text \<open>
  \<^verbatim>\<open>os.makedirs\<close> creates the directory and its missing parents; it fails when the
  path exists already or a regular file stands in the way.
\<close>

definition makedirs :: "path \<Rightarrow> filesys \<Rightarrow> error + filesys" where
  "makedirs p files =
     (if path_exists files p \<or> list_ex (isfile files) (prefixes p) then Inl (OSError p)
      else Inr (\<lambda>q. if q \<noteq> [] \<and> prefix q p \<and> files q = None then Some Dir else files q))"

text \<open>
  \<^verbatim>\<open>shutil.rmtree\<close> removes a directory with everything below it; it fails on a path
  that is not a directory.
\<close>

definition rmtree :: "path \<Rightarrow> filesys \<Rightarrow> error + filesys" where
  "rmtree p files =
     (if isdir files p then Inr (\<lambda>q. if prefix p q then None else files q)
      else Inl (OSError p))"

text \<open>
  \<^verbatim>\<open>shutil.move\<close>: a source that does not exist is an error; a source moved to an
  existing directory goes inside it (an error when the name is taken there); otherwise
  the source, with everything below it, is renamed onto the destination.
\<close>

definition rename :: "path \<Rightarrow> path \<Rightarrow> filesys \<Rightarrow> filesys" where
  "rename src dst files =
     (\<lambda>q. if prefix dst q then files (src @ drop (length dst) q)
          else if prefix src q then None
          else files q)"

definition move :: "path \<Rightarrow> path \<Rightarrow> filesys \<Rightarrow> error + filesys" where
  "move src dst files =
     (if src = [] \<or> \<not> path_exists files src then Inl (OSError src)
      else if isdir files dst then
        (let inside = dst @ [last src]
         in if path_exists files inside then Inl (OSError inside)
            else Inr (rename src inside files))
      else Inr (rename src dst files))"

definition open_read :: "filesys \<Rightarrow> path \<Rightarrow> error + stream" where
  "open_read files p = (case files p of Some (File ls) \<Rightarrow> Inr ls | _ \<Rightarrow> Inl (IOError p))"

text \<open>
  The state of the process: the file system, the working directory, the two pieces of
  module-level mutable state (the dictionary \<^verbatim>\<open>TOOL_DEPENDENCIES\<close> of
  \<^verbatim>\<open>ionhashtest.config\<close> and the three counters), and the external actions so far.
\<close>

record world =
  fs :: filesys
  cwd :: path
  TOOL_DEPENDENCIES :: "string dict"
  globals :: counters
  events :: "event list"

text \<open>
  What the external programs do is a parameter: whether a tool answers \<^verbatim>\<open>--help\<close>,
  whether each git step succeeds for a location and revision and what
  \<^verbatim>\<open>git rev-parse --short HEAD\<close> prints there (\<open>None\<close>: it fails), what the test
  generator leaves in the file system (\<open>None\<close>: it raises) and the lines an
  implementation's executable writes to its standard output.
\<close>

record env =
  tool_runs :: "string \<Rightarrow> bool"
  git_clone_ok :: "string \<Rightarrow> bool"
  git_checkout_ok :: "string \<Rightarrow> string \<Rightarrow> bool"
  git_submodule_ok :: "string \<Rightarrow> string \<Rightarrow> bool"
  git_head :: "string \<Rightarrow> string option \<Rightarrow> string option"
  generate_tests :: "path \<Rightarrow> path \<Rightarrow> filesys \<Rightarrow> filesys option"
  run_executable :: "path \<Rightarrow> string \<Rightarrow> path \<Rightarrow> filesys \<Rightarrow> string list"

text \<open>
  An entry of \<^verbatim>\<open>ION_BUILDS\<close> (\<^verbatim>\<open>ionhashtest.config\<close>, a parameter here): the install
  procedure, which receives the log path and works in the current directory, giving
  whether it returned normally and the file system it leaves; and the optional relative
  path of the executable.
\<close>

record ion_build =
  build_install :: "path option \<Rightarrow> path \<Rightarrow> filesys \<Rightarrow> bool \<times> filesys"
  build_execute :: "path option"

record config =
  ION_BUILDS :: "ion_build dict"
  ION_IMPLEMENTATIONS :: "string list"
  ION_HASH_TEST_SOURCE :: string

subsection \<open>\<^verbatim>\<open>check_tool_dependencies\<close>\<close>

text \<open>
  The docopt dictionary. \<open>arg_tool name\<close> is \<^verbatim>\<open>arguments['--' + name]\<close>;
  \<open>arg_output_dir\<close> is \<^verbatim>\<open>os.path.abspath(arguments['--output-dir'])\<close>.
\<close>

record arguments =
  arg_help :: bool
  arg_list :: bool
  arg_output_dir :: path
  arg_implementation :: "string list"
  arg_local_only :: bool
  arg_ion_hash_test :: "string option"
  arg_tool :: "string \<Rightarrow> string option"

fun override_tools :: "arguments \<Rightarrow> string list \<Rightarrow> string dict \<Rightarrow> string dict" where
  "override_tools args [] deps = deps"
| "override_tools args (name # names) deps =
     (case arg_tool args name of
        Some p \<Rightarrow> override_tools args names (if p \<noteq> [] then AList.update name p deps else deps)
      | None \<Rightarrow> override_tools args names deps)"

fun check_tools :: "env \<Rightarrow> string dict \<Rightarrow> event list \<Rightarrow> error option \<times> event list" where
  "check_tools e [] evs = (None, evs)"
| "check_tools e ((name, p) # rest) evs =
     (if tool_runs e p then check_tools e rest (evs @ [ToolCheck name p])
      else (Some (ToolNotFound name), evs @ [ToolCheck name p]))"

definition check_tool_dependencies :: "env \<Rightarrow> arguments \<Rightarrow> world \<Rightarrow> error option \<times> world" where
  "check_tool_dependencies e args w =
     (let names = map fst (TOOL_DEPENDENCIES w);
          deps = override_tools args names (TOOL_DEPENDENCIES w);
          (r, evs) = check_tools e deps (events w)
      in (r, w\<lparr>TOOL_DEPENDENCIES := deps, events := evs\<rparr>))"

subsection \<open>\<^verbatim>\<open>IonResource\<close>\<close>

record ion_resource =
  output_root :: path
  build :: ion_build
  name :: string
  build_dir :: "path option"
  build_log :: "path option"
  ident :: "string option"
  executable :: "path option"
  location :: string
  revision :: "string option"

definition IonResource ::
  "ion_build dict \<Rightarrow> path \<Rightarrow> string \<Rightarrow> string \<Rightarrow> string option \<Rightarrow> error + ion_resource" where
  "IonResource builds root nm loc rv =
     (case map_of builds nm of
        None \<Rightarrow> Inl (NoInstaller nm)
      | Some b \<Rightarrow>
          Inr \<lparr>output_root = root, build = b, name = nm, build_dir = None, build_log = None,
               ident = None, executable = None, location = loc, revision = rv\<rparr>)"

text \<open>The property \<^verbatim>\<open>identifier\<close>.\<close>

definition identifier_of :: "ion_resource \<Rightarrow> error + string" where
  "identifier_of self = (case ident self of None \<Rightarrow> Inl (NoIdentifier (name self)) | Some i \<Rightarrow> Inr i)"

text \<open>
  \<^verbatim>\<open>log_call\<close> (\<^verbatim>\<open>ionhashtest.util\<close>) runs a command with its output sent to the log
  file: afterwards the log file exists and the command has been started. Whether the
  command succeeded is the environment's answer, tested by the caller.
\<close>

definition log_call :: "path \<Rightarrow> event \<Rightarrow> world \<Rightarrow> world" where
  "log_call log ev w =
     w\<lparr>fs := (if isfile (fs w) log then fs w else (fs w)(log \<mapsto> File [])),
       events := events w @ [ev]\<rparr>"

text \<open>\<^verbatim>\<open>os.chdir\<close>: the path must be a directory.\<close>

definition chdir :: "path \<Rightarrow> world \<Rightarrow> error + world" where
  "chdir p w = (if isdir (fs w) p then Inr (w\<lparr>cwd := p\<rparr>) else Inl (OSError p))"

definition strip :: "string \<Rightarrow> string" where
  "strip s = dropWhile is_space (rstrip s)"

text \<open>The two optional git steps after the clone.\<close>

definition checkout_revision ::
  "env \<Rightarrow> string \<Rightarrow> path \<Rightarrow> ion_resource \<Rightarrow> world \<Rightarrow> (error + unit) \<times> world" where
  "checkout_revision e git tmp_log self w =
     (case revision self of
        None \<Rightarrow> (Inr (), w)
      | Some rv \<Rightarrow>
          (let w1 = log_call tmp_log (GitCheckout git rv) w in
           if \<not> git_checkout_ok e (location self) rv
           then (Inl (CalledProcessError (GitCheckout git rv)), w1)
           else
             (let w2 = log_call tmp_log (GitSubmoduleUpdate git) w1 in
              if \<not> git_submodule_ok e (location self) rv
              then (Inl (CalledProcessError (GitSubmoduleUpdate git)), w2)
              else (Inr (), w2))))"

text \<open>
  The last statement of the \<^verbatim>\<open>try\<close> block: when there is no build directory yet,
  the log and the clone are moved to their permanent places; otherwise nothing is moved.
\<close>

definition promote ::
  "path \<Rightarrow> path \<Rightarrow> path \<Rightarrow> path \<Rightarrow> filesys \<Rightarrow> (error + unit) \<times> filesys" where
  "promote tmp_dir tmp_log bdir blog files =
     (if \<not> path_exists files bdir
      then (case move tmp_log blog files of
              Inl err \<Rightarrow> (Inl err, files)
            | Inr files' \<Rightarrow>
                (case move tmp_dir bdir files' of
                   Inl err \<Rightarrow> (Inl err, files')
                 | Inr files'' \<Rightarrow> (Inr (), files'')))
      else (Inr (), files))"

text \<open>From \<^verbatim>\<open>git rev-parse\<close> to the end of the \<^verbatim>\<open>try\<close> block.\<close>

definition resolve_commit ::
  "env \<Rightarrow> string \<Rightarrow> path \<Rightarrow> path \<Rightarrow> ion_resource \<Rightarrow> world
     \<Rightarrow> (error + unit) \<times> ion_resource \<times> world" where
  "resolve_commit e git tmp_dir tmp_log self w =
     (let w1 = w\<lparr>events := events w @ [GitRevParse git]\<rparr> in
      case git_head e (location self) (revision self) of
        None \<Rightarrow> (Inl (CalledProcessError (GitRevParse git)), self, w1)
      | Some out \<Rightarrow>
          (let commit = strip out;
               i = name self @ ''_'' @ commit;
               bdir = output_root self @ [''build'', i];
               self1 = self\<lparr>ident := Some i, build_dir := Some bdir\<rparr>;
               logs_dir = output_root self @ [''build'', ''logs'']
           in case (if \<not> isdir (fs w1) logs_dir then makedirs logs_dir (fs w1)
                    else Inr (fs w1)) of
                Inl err \<Rightarrow> (Inl err, self1, w1)
              | Inr files \<Rightarrow>
                  (let blog = logs_dir @ [i @ ''.txt''];
                       self2 = self1\<lparr>build_log := Some blog\<rparr>;
                       (r, files') = promote tmp_dir tmp_log bdir blog files
                   in (r, self2, w1\<lparr>fs := files'\<rparr>))))"

text \<open>
  The \<^verbatim>\<open>try\<close> block of \<^verbatim>\<open>__git_clone_revision\<close>. A clone that succeeds leaves the
  directory \<open>tmp_dir\<close>. \<^verbatim>\<open>TOOL_DEPENDENCIES['git']\<close> is looked up once, at its first
  use: the dictionary does not change during the block.
\<close>

definition git_clone_revision_try ::
  "env \<Rightarrow> ion_resource \<Rightarrow> path \<Rightarrow> world \<Rightarrow> (error + unit) \<times> ion_resource \<times> world" where
  "git_clone_revision_try e self tmp_dir_root w =
     (let tmp_dir = tmp_dir_root @ [name self] in
      case (if \<not> isdir (fs w) tmp_dir_root then makedirs tmp_dir_root (fs w)
            else Inr (fs w)) of
        Inl err \<Rightarrow> (Inl err, self, w)
      | Inr files1 \<Rightarrow>
          (let w1 = w\<lparr>fs := files1\<rparr>;
               tmp_log = tmp_dir_root @ [''tmp_log.txt'']
           in case map_of (TOOL_DEPENDENCIES w1) ''git'' of
                None \<Rightarrow> (Inl (KeyError ''git''), self, w1)
              | Some git \<Rightarrow>
                  (let w2 = log_call tmp_log (GitClone git (location self) tmp_dir) w1 in
                   if \<not> git_clone_ok e (location self)
                   then (Inl (CalledProcessError (GitClone git (location self) tmp_dir)),
                         self, w2)
                   else
                     (case chdir tmp_dir (w2\<lparr>fs := (fs w2)(tmp_dir \<mapsto> Dir)\<rparr>) of
                        Inl err \<Rightarrow> (Inl err, self, w2\<lparr>fs := (fs w2)(tmp_dir \<mapsto> Dir)\<rparr>)
                      | Inr w3 \<Rightarrow>
                          (case checkout_revision e git tmp_log self w3 of
                             (Inl err, w4) \<Rightarrow> (Inl err, self, w4)
                           | (Inr u, w4) \<Rightarrow>
                               resolve_commit e git tmp_dir tmp_log self w4)))))"

text \<open>
  \<^verbatim>\<open>__git_clone_revision\<close>: the \<^verbatim>\<open>try\<close> block, then the \<^verbatim>\<open>finally\<close> clause, which
  runs on every way out of the block; an error of its own replaces the block's result.
\<close>

definition git_clone_revision ::
  "env \<Rightarrow> ion_resource \<Rightarrow> world \<Rightarrow> (error + unit) \<times> ion_resource \<times> world" where
  "git_clone_revision e self w =
     (let tmp_dir_root = output_root self @ [''build'', ''tmp''] in
      case git_clone_revision_try e self tmp_dir_root w of
        (r, self', w') \<Rightarrow>
          (case rmtree tmp_dir_root (fs w') of
             Inl err \<Rightarrow> (Inl err, self', w')
           | Inr files \<Rightarrow> (r, self', w'\<lparr>fs := files\<rparr>)))"

definition install :: "env \<Rightarrow> ion_resource \<Rightarrow> world \<Rightarrow> (error + path) \<times> ion_resource \<times> world" where
  "install e self w =
     (case git_clone_revision e self w of
        (Inl err, self1, w1) \<Rightarrow> (Inl err, self1, w1)
      | (Inr u, self1, w1) \<Rightarrow>
          (case build_dir self1 of
             None \<Rightarrow> (Inl TypeError, self1, w1)
           | Some d \<Rightarrow>
               (case chdir d w1 of
                  Inl err \<Rightarrow> (Inl err, self1, w1)
                | Inr w2 \<Rightarrow>
                    (let (ok, files) =
                           build_install (build self1) (build_log self1) (cwd w2) (fs w2);
                         w3 = w2\<lparr>fs := files,
                                 events := events w2 @
                                   [Install (name self1) (build_log self1)]\<rparr>
                     in if \<not> ok then (Inl (InstallError (name self1)), self1, w3)
                        else
                          (case chdir (output_root self1) w3 of
                             Inl err \<Rightarrow> (Inl err, self1, w3)
                           | Inr w4 \<Rightarrow>
                               (case identifier_of self1 of
                                  Inl err \<Rightarrow> (Inl err, self1, w4)
                                | Inr i \<Rightarrow> (Inr d, self1, w4)))))))"

subsection \<open>\<^verbatim>\<open>IonHashImplementation.test\<close>\<close>

text \<open>
  The capture file is opened for writing (a directory of that name is an error), the
  executable runs to its end, and the file holds what it wrote.
\<close>

definition test ::
  "env \<Rightarrow> ion_resource \<Rightarrow> path \<Rightarrow> string \<Rightarrow> world \<Rightarrow> (error + unit) \<times> ion_resource \<times> world" where
  "test e self test_file algorithm w =
     (case build_dir self of
        None \<Rightarrow> (Inl (NotInstalled (name self)), self, w)
      | Some d \<Rightarrow>
          (case (case executable self of
                   None \<Rightarrow>
                     (case build_execute (build self) of
                        None \<Rightarrow> Inl (NotExecutable (name self))
                      | Some x \<Rightarrow> Inr (self\<lparr>executable := Some (d @ x)\<rparr>))
                 | Some x \<Rightarrow> Inr self) of
             Inl err \<Rightarrow> (Inl err, self, w)
           | Inr self1 \<Rightarrow>
               (case executable self1 of
                  None \<Rightarrow> (Inl TypeError, self1, w)
                | Some exe \<Rightarrow>
                    if \<not> isfile (fs w) exe then (Inl (ExecutableMissing (name self1)), self1, w)
                    else
                      (let outfile = cwd w @ [name self1 @ ''.out''] in
                       if isdir (fs w) outfile then (Inl (IOError outfile), self1, w)
                       else
                         (let w1 = w\<lparr>fs := (fs w)(outfile \<mapsto> File [])\<rparr>;
                              out = run_executable e exe algorithm test_file (fs w1);
                              w2 = w1\<lparr>fs := (fs w1)(outfile \<mapsto> File out),
                                      events := events w1 @ [Spawn exe algorithm test_file]\<rparr>
                          in (Inr (), self1, w2))))))"

subsection \<open>\<^verbatim>\<open>report\<close>\<close>

record summary =
  test_count :: nat
  summary_digest_matches :: nat
  summary_digest_inconsistent :: nat
  summary_digest_no_comparison :: nat

record report =
  digests :: "digest_comparison list"
  summary :: summary

fun open_reports :: "filesys \<Rightarrow> path \<Rightarrow> ion_resource list \<Rightarrow> stream dict \<Rightarrow> error + stream dict" where
  "open_reports files dir [] report_files = Inr report_files"
| "open_reports files dir (impl # impls) report_files =
     (case open_read files (dir @ [name impl @ ''.out'']) of
        Inl err \<Rightarrow> Inl err
      | Inr f \<Rightarrow> open_reports files dir impls (AList.update (name impl) f report_files))"

text \<open>The loop over the lines of the test file.\<close>

fun compare_lines ::
  "string list \<Rightarrow> stream dict \<Rightarrow> digest_comparison list \<Rightarrow> counters
     \<Rightarrow> stream dict \<times> digest_comparison list \<times> counters" where
  "compare_lines [] report_files digest_comparisons g = (report_files, digest_comparisons, g)"
| "compare_lines (line # tf) report_files digest_comparisons g =
     (case compare_test (rstrip line) report_files digest_comparisons g of
        (report_files', digest_comparisons', g') \<Rightarrow>
          compare_lines tf report_files' digest_comparisons' g')"

definition report :: "ion_resource list \<Rightarrow> path \<Rightarrow> world \<Rightarrow> (error + report) \<times> world" where
  "report impls test_file w =
     (case open_reports (fs w) (cwd w) impls [] of
        Inl err \<Rightarrow> (Inl err, w)
      | Inr report_files \<Rightarrow>
          (case open_read (fs w) test_file of
             Inl err \<Rightarrow> (Inl err, w)
           | Inr tf \<Rightarrow>
               (case compare_lines tf report_files [] (globals w) of
                  (report_files', digest_comparisons, g) \<Rightarrow>
                    (Inr \<lparr>digests = digest_comparisons,
                          summary = \<lparr>test_count = length digest_comparisons,
                                     summary_digest_matches = digest_matches g,
                                     summary_digest_inconsistent = digest_inconsistencies g,
                                     summary_digest_no_comparison = digest_no_comparison g\<rparr>\<rparr>,
                     w\<lparr>globals := g\<rparr>))))"

subsection \<open>The driver\<close>

fun parse_implementations :: "ion_build dict \<Rightarrow> string list \<Rightarrow> path \<Rightarrow> error + ion_resource list" where
  "parse_implementations builds [] root = Inr []"
| "parse_implementations builds (description # descriptions) root =
     (case tokenize_description description True of
        Inl err \<Rightarrow> Inl err
      | Inr (Unnamed loc rv) \<Rightarrow> Inl TypeError
      | Inr (Named nm loc rv) \<Rightarrow>
          (case IonResource builds root nm loc (Some rv) of
             Inl err \<Rightarrow> Inl err
           | Inr impl \<Rightarrow>
               (case parse_implementations builds descriptions root of
                  Inl err \<Rightarrow> Inl err
                | Inr impls \<Rightarrow> Inr (impl # impls))))"

fun install_all :: "env \<Rightarrow> ion_resource list \<Rightarrow> world \<Rightarrow> (error + ion_resource list) \<times> world" where
  "install_all e [] w = (Inr [], w)"
| "install_all e (impl # impls) w =
     (case install e impl w of
        (Inl err, impl', w') \<Rightarrow> (Inl err, w')
      | (Inr d, impl', w') \<Rightarrow>
          (case install_all e impls w' of
             (Inl err, w'') \<Rightarrow> (Inl err, w'')
           | (Inr impls', w'') \<Rightarrow> (Inr (impl' # impls'), w'')))"

fun test_all ::
  "env \<Rightarrow> ion_resource list \<Rightarrow> path \<Rightarrow> string \<Rightarrow> world \<Rightarrow> (error + ion_resource list) \<times> world" where
  "test_all e [] test_file algorithm w = (Inr [], w)"
| "test_all e (impl # impls) test_file algorithm w =
     (case test e impl test_file algorithm w of
        (Inl err, impl', w') \<Rightarrow> (Inl err, w')
      | (Inr u, impl', w') \<Rightarrow>
          (case test_all e impls test_file algorithm w' of
             (Inl err, w'') \<Rightarrow> (Inl err, w'')
           | (Inr impls', w'') \<Rightarrow> (Inr (impl' # impls'), w'')))"

datatype outcome = Usage | Listing "string list" | Reported report

text \<open>The driver after the tool check, from the \<^verbatim>\<open>install()\<close> loop to the report.\<close>

definition install_and_test ::
  "config \<Rightarrow> env \<Rightarrow> arguments \<Rightarrow> path \<Rightarrow> ion_resource list \<Rightarrow> world \<Rightarrow> (error + outcome) \<times> world" where
  "install_and_test c e args root implementations w =
     (case install_all e implementations w of
        (Inl err, w1) \<Rightarrow> (Inl err, w1)
      | (Inr impls, w1) \<Rightarrow>
          (let ion_hash_test_source =
                 (case arg_ion_hash_test args of
                    None \<Rightarrow> ION_HASH_TEST_SOURCE c
                  | Some s \<Rightarrow> if s = [] then ION_HASH_TEST_SOURCE c else s)
           in case tokenize_description ion_hash_test_source False of
                Inl err \<Rightarrow> (Inl err, w1)
              | Inr (Named nm loc rv) \<Rightarrow> (Inl TypeError, w1)
              | Inr (Unnamed loc rv) \<Rightarrow>
                  (case IonResource (ION_BUILDS c) root ''ion-hash-test'' loc (Some rv) of
                     Inl err \<Rightarrow> (Inl err, w1)
                   | Inr src \<Rightarrow>
                       (case install e src w1 of
                          (Inl err, src', w2) \<Rightarrow> (Inl err, w2)
                        | (Inr ion_hash_test_dir, src', w2) \<Rightarrow>
                            (let test_file = root @ [''tests.ion''];
                                 w3 = w2\<lparr>events := events w2 @
                                           [GenerateTests ion_hash_test_dir test_file]\<rparr>
                             in case generate_tests e ion_hash_test_dir test_file (fs w3) of
                                  None \<Rightarrow> (Inl GenerateError, w3)
                                | Some files \<Rightarrow>
                                    (let w4 = w3\<lparr>fs := files\<rparr>;
                                         test_file' = root @ [''tests.ion.head'']
                                     in case test_all e impls test_file' ''md5'' w4 of
                                          (Inl err, w5) \<Rightarrow> (Inl err, w5)
                                        | (Inr impls', w5) \<Rightarrow>
                                            (case report impls' test_file' w5 of
                                               (Inl err, w6) \<Rightarrow> (Inl err, w6)
                                             | (Inr the_report, w6) \<Rightarrow>
                                                 (Inr (Reported the_report), w6))))))))"

definition ion_hash_test_driver ::
  "config \<Rightarrow> env \<Rightarrow> arguments \<Rightarrow> world \<Rightarrow> (error + outcome) \<times> world" where
  "ion_hash_test_driver c e args w =
     (if arg_help args then (Inr Usage, w)
      else if arg_list args
        then (Inr (Listing (filter (\<lambda>impl_name. impl_name \<noteq> ''ion-hash-test'')
                                  (map fst (ION_BUILDS c)))), w)
      else
        (let root = arg_output_dir args in
         case (if \<not> path_exists (fs w) root then makedirs root (fs w) else Inr (fs w)) of
           Inl err \<Rightarrow> (Inl err, w)
         | Inr files \<Rightarrow>
             (let w1 = w\<lparr>fs := files\<rparr> in
              case parse_implementations (ION_BUILDS c) (arg_implementation args) root of
                Inl err \<Rightarrow> (Inl err, w1)
              | Inr given \<Rightarrow>
                  (case (if \<not> arg_local_only args
                         then (case parse_implementations (ION_BUILDS c)
                                       (ION_IMPLEMENTATIONS c) root of
                                 Inl err \<Rightarrow> Inl err
                               | Inr defaults \<Rightarrow> Inr (given @ defaults))
                         else Inr given) of
                     Inl err \<Rightarrow> (Inl err, w1)
                   | Inr implementations \<Rightarrow>
                       (case check_tool_dependencies e args w1 of
                          (Some err, w2) \<Rightarrow> (Inl err, w2)
                        | (None, w2) \<Rightarrow>
                            install_and_test c e args root implementations w2)))))"

subsection \<open>The initial state and a concrete configuration\<close>

text \<open>The counters as the module initialises them.\<close>

definition initial_counters :: counters where
  "initial_counters =
     \<lparr>digest_no_comparison = 0, digest_matches = 0, digest_inconsistencies = 0\<rparr>"

text \<open>The sum of the three counters.\<close>

definition counted :: "counters \<Rightarrow> nat" where
  "counted g = digest_matches g + digest_inconsistencies g + digest_no_comparison g"

text \<open>
  A small configuration on which the theorems below are instantiated: one
  implementation, \<^verbatim>\<open>ion-c\<close>, whose install procedure leaves an executable
  \<^verbatim>\<open>ionhash\<close> in the build directory, and the test source, which has no executable.
\<close>

definition example_build :: ion_build where
  "example_build =
     \<lparr>build_install = (\<lambda>log dir files. (True, files(dir @ [''ionhash''] \<mapsto> File []))),
      build_execute = Some [''ionhash'']\<rparr>"

definition example_source_build :: ion_build where
  "example_source_build =
     \<lparr>build_install = (\<lambda>log dir files. (True, files)), build_execute = None\<rparr>"

definition example_config :: config where
  "example_config =
     \<lparr>ION_BUILDS = [(''ion-c'', example_build), (''ion-hash-test'', example_source_build)],
      ION_IMPLEMENTATIONS = [''ion-c,/src/ion-c''],
      ION_HASH_TEST_SOURCE = ''/src/ion-hash-test''\<rparr>"

definition example_env :: env where
  "example_env =
     \<lparr>tool_runs = (\<lambda>p. p = ''git''),
      git_clone_ok = (\<lambda>loc. True),
      git_checkout_ok = (\<lambda>loc rv. True),
      git_submodule_ok = (\<lambda>loc rv. True),
      git_head = (\<lambda>loc rv. Some (''abc1234'' @ [CHR 0x0A])),
      generate_tests = (\<lambda>dir test_file files. Some (files(test_file \<mapsto> File [''v'' @ [CHR 0x0A]]))),
      run_executable = (\<lambda>exe algorithm test_file files. [''d1'' @ [CHR 0x0A]])\<rparr>"

definition example_world :: world where
  "example_world =
     \<lparr>fs = Map.empty, cwd = [''home''], TOOL_DEPENDENCIES = [(''git'', ''git'')],
      globals = initial_counters, events = []\<rparr>"

definition example_impl :: ion_resource where
  "example_impl =
     \<lparr>output_root = [''out''], build = example_build, name = ''ion-c'', build_dir = None,
      build_log = None, ident = None, executable = None, location = ''/src/ion-c'',
      revision = Some ''master''\<rparr>"

text \<open>
  A state for \<^verbatim>\<open>report\<close>: the test file holds the single line \<^verbatim>\<open>"v "\<close> (with a trailing
  space, and no line terminator at the end of the file), and \<^verbatim>\<open>ion-c.out\<close> in the
  working directory holds the one digest line \<^verbatim>\<open>"d1\n"\<close>.
\<close>

definition report_world :: world where
  "report_world =
     \<lparr>fs = [[''out'', ''tests.ion.head''] \<mapsto> File [''v ''],
            [''out'', ''ion-c.out''] \<mapsto> File [''d1'' @ [CHR 0x0A]]],
      cwd = [''out''], TOOL_DEPENDENCIES = [(''git'', ''git'')],
      globals = initial_counters, events = []\<rparr>"

text \<open>
  The state a first resolution of \<^verbatim>\<open>ion-c\<close> at commit \<^verbatim>\<open>abc1234\<close> leaves under the
  output root \<^verbatim>\<open>/out\<close>: the build directory with the executable, and the build log.
\<close>

definition built_world :: world where
  "built_world =
     \<lparr>fs = [[''out''] \<mapsto> Dir, [''out'', ''build''] \<mapsto> Dir,
            [''out'', ''build'', ''logs''] \<mapsto> Dir,
            [''out'', ''build'', ''logs'', ''ion-c_abc1234.txt''] \<mapsto> File [],
            [''out'', ''build'', ''ion-c_abc1234''] \<mapsto> Dir,
            [''out'', ''build'', ''ion-c_abc1234'', ''ionhash''] \<mapsto> File []],
      cwd = [''out''], TOOL_DEPENDENCIES = [(''git'', ''git'')],
      globals = initial_counters, events = []\<rparr>"

text \<open>The git steps that follow the clone, as events.\<close>

definition checkout_events :: "string \<Rightarrow> ion_resource \<Rightarrow> event list" where
  "checkout_events git self =
     (case revision self of None \<Rightarrow> [] | Some rv \<Rightarrow> [GitCheckout git rv, GitSubmoduleUpdate git])"

text \<open>
  Command lines: the plain run with every default, and a run that names an
  implementation \<^verbatim>\<open>nope\<close> for which \<^verbatim>\<open>ION_BUILDS\<close> has no entry.
\<close>

definition example_arguments :: arguments where
  "example_arguments =
     \<lparr>arg_help = False, arg_list = False, arg_output_dir = [''out''],
      arg_implementation = [], arg_local_only = False, arg_ion_hash_test = None,
      arg_tool = (\<lambda>tool. None)\<rparr>"

definition unknown_name_arguments :: arguments where
  "unknown_name_arguments = example_arguments\<lparr>arg_implementation := [''nope,/src/nope'']\<rparr>"

text \<open>An environment in which no tool can be started.\<close>

definition no_tools_env :: env where
  "no_tools_env = example_env\<lparr>tool_runs := (\<lambda>p. False)\<rparr>"

text \<open>
  The lines of the capture file \<^verbatim>\<open><name>.out\<close> in the working directory, as \<^verbatim>\<open>report\<close>
  opens it for the implementation of that name (no line when it cannot be opened).
\<close>

definition capture :: "world \<Rightarrow> string \<Rightarrow> stream" where
  "capture w nm =
     (case open_read (fs w) (cwd w @ [nm @ ''.out'']) of Inr ls \<Rightarrow> ls | Inl err \<Rightarrow> [])"

text \<open>
  A state for \<^verbatim>\<open>report\<close> with a short capture file: the test file has three lines,
  \<^verbatim>\<open>ion-c.out\<close> has one and \<^verbatim>\<open>ion-java.out\<close> has two.
\<close>

definition example_impl_java :: ion_resource where
  "example_impl_java = example_impl\<lparr>name := ''ion-java'', location := ''/src/ion-java''\<rparr>"

definition short_capture_world :: world where
  "short_capture_world =
     \<lparr>fs = [[''out'', ''tests.ion.head''] \<mapsto>
               File [''v1'' @ [CHR 0x0A], ''v2'' @ [CHR 0x0A], ''v3'' @ [CHR 0x0A]],
            [''out'', ''ion-c.out''] \<mapsto> File [''d1'' @ [CHR 0x0A]],
            [''out'', ''ion-java.out''] \<mapsto> File [''d1'' @ [CHR 0x0A], ''d2'' @ [CHR 0x0A]]],
      cwd = [''out''], TOOL_DEPENDENCIES = [(''git'', ''git'')],
      globals = initial_counters, events = []\<rparr>"


section \<open>Properties\<close>

subsection \<open>Resource descriptions\<close>

lemma split_comma_nonempty: "split_comma d \<noteq> []"
  by (induction d) (auto split: list.splits)

text \<open>
  Claim C7. Tokenizing a resource description gives the default branch, which the code
  spells \<^verbatim>\<open>'master'\<close>, as the revision when the revision token is left out (the
  description has exactly the required tokens: name and location, or the location
  alone), and raises the configuration error \<^verbatim>\<open>"Invalid implementation description."\<close>
  instead of returning when the description has fewer tokens than its form requires.
\<close>

theorem tokenize_description_default_and_error:
  "let cs = split_comma d; required = (if has_name then 2 else 1) in
     (length cs < required \<longrightarrow> tokenize_description d has_name = Inl InvalidDescription) \<and>
     (length cs = required \<longrightarrow>
        tokenize_description d has_name =
          Inr (if has_name then Named (cs ! 0) (cs ! 1) ''master''
               else Unnamed (cs ! 0) ''master''))"
  by (simp add: tokenize_description_def Let_def)

theorem tokenize_description_default_and_error_witness:
  "tokenize_description ''ion-c'' True = Inl InvalidDescription \<and>
   tokenize_description ''ion-c,/src/ion-c'' True =
     Inr (Named ''ion-c'' ''/src/ion-c'' ''master'') \<and>
   tokenize_description ''/src/ion-hash-test'' False =
     Inr (Unnamed ''/src/ion-hash-test'' ''master'')"
  using tokenize_description_default_and_error [of "''ion-c''" True]
        tokenize_description_default_and_error [of "''ion-c,/src/ion-c''" True]
        tokenize_description_default_and_error [of "''/src/ion-hash-test''" False]
  by (simp add: Let_def)

text \<open>
  Two facts beside the claim: a description without a name always has its one required
  token, so it never raises; and tokens past the revision are ignored, not rejected.
\<close>

lemma tokenize_description_unnamed_total:
  "\<exists>loc rv. tokenize_description d False = Inr (Unnamed loc rv)"
  using split_comma_nonempty [of d]
  by (cases "split_comma d") (auto simp: tokenize_description_def Let_def)

lemma tokenize_description_extra_tokens:
  "tokenize_description ''a,b,c,d'' True = Inr (Named ''a'' ''b'' ''c'')"
  by (simp add: tokenize_description_def Let_def)

subsection \<open>Running an implementation\<close>

text \<open>
  Claim C5. \<^verbatim>\<open>IonHashImplementation.test\<close> enforces its three preconditions with an
  explicit error each, raised before anything else is done: no build directory (not
  installed), no declared executable, and a declared executable that is not a file.
  Whenever it raises, the process state is unchanged, so no capture file has been
  opened and no subprocess started; when it returns, the executable existed and exactly
  one subprocess was started.
\<close>

theorem test_preconditions:
  "(build_dir self = None \<longrightarrow>
      test e self tf alg w = (Inl (NotInstalled (name self)), self, w)) \<and>
   (build_dir self \<noteq> None \<and> executable self = None \<and> build_execute (build self) = None \<longrightarrow>
      test e self tf alg w = (Inl (NotExecutable (name self)), self, w)) \<and>
   (\<forall>d exe. build_dir self = Some d \<and>
        (executable self = Some exe \<or>
         executable self = None \<and> (\<exists>x. build_execute (build self) = Some x \<and> exe = d @ x)) \<and>
        \<not> isfile (fs w) exe \<longrightarrow>
      test e self tf alg w =
        (Inl (ExecutableMissing (name self)), self\<lparr>executable := Some exe\<rparr>, w)) \<and>
   (\<forall>err self' w'. test e self tf alg w = (Inl err, self', w') \<longrightarrow> w' = w) \<and>
   (\<forall>self' w'. test e self tf alg w = (Inr (), self', w') \<longrightarrow>
      build_dir self \<noteq> None \<and>
      (\<exists>exe. executable self' = Some exe \<and> isfile (fs w) exe \<and>
             events w' = events w @ [Spawn exe alg tf]))"
  by (auto simp: test_def Let_def split: option.splits sum.splits if_splits)

theorem test_preconditions_witness:
  "test example_env example_impl [''out'', ''tests.ion.head''] ''md5'' example_world =
     (Inl (NotInstalled ''ion-c''), example_impl, example_world) \<and>
   test example_env (example_impl\<lparr>build := example_source_build, build_dir := Some [''out'', ''build'', ''ion-c_abc1234'']\<rparr>)
        [''out'', ''tests.ion.head''] ''md5'' example_world =
     (Inl (NotExecutable ''ion-c''),
      example_impl\<lparr>build := example_source_build, build_dir := Some [''out'', ''build'', ''ion-c_abc1234'']\<rparr>,
      example_world) \<and>
   test example_env (example_impl\<lparr>build_dir := Some [''out'', ''build'', ''ion-c_abc1234'']\<rparr>)
        [''out'', ''tests.ion.head''] ''md5'' example_world =
     (Inl (ExecutableMissing ''ion-c''),
      example_impl\<lparr>build_dir := Some [''out'', ''build'', ''ion-c_abc1234''],
                   executable := Some [''out'', ''build'', ''ion-c_abc1234'', ''ionhash'']\<rparr>,
      example_world)"
  using test_preconditions [of example_impl example_env "[''out'', ''tests.ion.head'']" "''md5''" example_world]
    test_preconditions [of "example_impl\<lparr>build := example_source_build, build_dir := Some [''out'', ''build'', ''ion-c_abc1234'']\<rparr>"
       example_env "[''out'', ''tests.ion.head'']" "''md5''" example_world]
    test_preconditions [of "example_impl\<lparr>build_dir := Some [''out'', ''build'', ''ion-c_abc1234'']\<rparr>"
       example_env "[''out'', ''tests.ion.head'']" "''md5''" example_world]
  by (simp add: example_impl_def example_build_def example_source_build_def example_world_def
        isfile_def)

subsection \<open>The comparator\<close>

lemma read_digests_keys: "map fst (fst (read_digests rf d)) = map fst rf"
  by (induction rf arbitrary: d) (auto simp: split_def Let_def)

lemma read_digests_files:
  "fst (read_digests rf d) = map (\<lambda>(n, f). (n, snd (readline f))) rf"
  by (induction rf arbitrary: d) (auto simp: split_def Let_def)

lemma read_digests_fold:
  "snd (read_digests rf d) =
     fold (\<lambda>(n, f). AList.update n (recorded_digest (fst (readline f)))) rf d"
  by (induction rf arbitrary: d) (auto simp: split_def Let_def)

lemma fold_update_distinct:
  "distinct (map fst d) \<Longrightarrow> distinct (map fst (fold (\<lambda>(n, f). AList.update n (h n f)) rf d))"
  by (induction rf arbitrary: d) (auto simp: distinct_update split_def)

lemma update_fresh: "k \<notin> fst ` set d \<Longrightarrow> AList.update k v d = d @ [(k, v)]"
  by (induction d) auto

lemma fold_update_fresh:
  "distinct (map fst rf) \<Longrightarrow> fst ` set rf \<inter> fst ` set d = {} \<Longrightarrow>
   fold (\<lambda>(n, f). AList.update n (h n f)) rf d = d @ map (\<lambda>(n, f). (n, h n f)) rf"
proof (induction rf arbitrary: d)
  case Nil
  then show ?case by simp
next
  case (Cons a rf)
  obtain n f where a: "a = (n, f)" by (cases a)
  have "n \<notin> fst ` set d" using Cons.prems a by auto
  then have u: "AList.update n (h n f) d = d @ [(n, h n f)]"
    by (rule update_fresh)
  show ?case using Cons a u by (auto simp: dom_update)
qed

lemma fold_update_nonempty:
  "rf \<noteq> [] \<or> d \<noteq> [] \<Longrightarrow> fold (\<lambda>(n, f). AList.update n (h n f)) rf d \<noteq> []"
  by (induction rf arbitrary: d) (auto simp: split_def)

lemma read_digests_distinct_keys: "distinct (map fst (snd (read_digests rf [])))"
  unfolding read_digests_fold by (rule fold_update_distinct) simp

lemma read_digests_empty_iff: "snd (read_digests rf []) = [] \<longleftrightarrow> rf = []"
  unfolding read_digests_fold
  using fold_update_nonempty [of rf "[]" "\<lambda>n f. recorded_digest (fst (readline f))"]
  by (cases rf) auto

lemma read_digests_map:
  "distinct (map fst rf) \<Longrightarrow>
   snd (read_digests rf []) = map (\<lambda>(n, f). (n, recorded_digest (fst (readline f)))) rf"
  unfolding read_digests_fold
  using fold_update_fresh [of rf "[]" "\<lambda>n f. recorded_digest (fst (readline f))"] by simp

lemma fill_entry_fold:
  "fill_entry ds e n = (fold (\<lambda>(k, v). AList.update k v) ds e, n + length ds)"
  by (induction ds e n rule: fill_entry.induct) auto

lemma impl_digests_of_distinct:
  "distinct (map fst ds) \<Longrightarrow> impl_digests_of ds = replicate (length ds) ds"
  using fold_update_fresh [of ds "[]" "\<lambda>k v. v"]
  by (simp add: impl_digests_of_def fill_entry_fold split_def)

lemma digest_set_length: "length (digest_set ds) = card (set (map snd ds))"
  by (simp add: digest_set_def length_remdups_card_conv)

lemma digest_set_single:
  "length (digest_set ds) = 1 \<Longrightarrow> set (map snd ds) = {hd (digest_set ds)}"
proof -
  assume "length (digest_set ds) = 1"
  then obtain v where v: "digest_set ds = [v]"
    by (cases "digest_set ds") auto
  then have "set (remdups (map snd ds)) = {v}" by (simp add: digest_set_def)
  then show ?thesis using v by simp
qed

lemma compare_test_none:
  "rf = [] \<Longrightarrow>
   compare_test line rf dcs g =
     ([], dcs @ [\<lparr>dc_result = no_comparison, dc_digest = None, dc_digests = None,
                   dc_value = line\<rparr>],
      g\<lparr>digest_no_comparison := digest_no_comparison g + 1\<rparr>)"
  by (simp add: compare_test_def digest_set_def)

lemma compare_test_single:
  assumes "set (map snd (snd (read_digests rf []))) = {v}"
  shows "compare_test line rf dcs g =
           (fst (read_digests rf []),
            dcs @ [\<lparr>dc_result = full_match, dc_digest = Some v, dc_digests = None,
                    dc_value = line\<rparr>],
            g\<lparr>digest_matches := digest_matches g + 1\<rparr>)"
proof -
  have "length (digest_set (snd (read_digests rf []))) = 1"
    using assms by (simp add: digest_set_length)
  moreover from this have "hd (digest_set (snd (read_digests rf []))) = v"
    using digest_set_single [of "snd (read_digests rf [])"] assms by simp
  ultimately show ?thesis
    by (auto simp add: compare_test_def split_def Let_def)
qed

lemma compare_test_many:
  assumes "1 < card (set (map snd (snd (read_digests rf []))))"
  shows "compare_test line rf dcs g =
           (fst (read_digests rf []),
            dcs @ [\<lparr>dc_result = inconsistent, dc_digest = None,
                    dc_digests = Some (replicate (length (snd (read_digests rf [])))
                                         (snd (read_digests rf []))),
                    dc_value = line\<rparr>],
            g\<lparr>digest_inconsistencies := digest_inconsistencies g + 1\<rparr>)"
proof -
  have "1 < length (digest_set (snd (read_digests rf [])))"
    using assms by (simp add: digest_set_length)
  then show ?thesis
    using impl_digests_of_distinct [OF read_digests_distinct_keys [of rf]]
    by (auto simp add: compare_test_def split_def Let_def)
qed

lemma startswith_iff: "startswith s p \<longleftrightarrow> (\<exists>r. s = p @ r)"
  unfolding startswith_def
  by (metis append_eq_conv_conj append_take_drop_id)

lemma rstrip_append:
  assumes "p \<noteq> []" "\<not> is_space (last p)"
  shows "rstrip (p @ r) = p @ rstrip r"
proof (cases "\<forall>x\<in>set (rev r). is_space x")
  case True
  have "dropWhile is_space (rev p) = rev p"
    using assms by (cases "rev p") (auto simp: last_rev [symmetric] hd_rev)
  with True show ?thesis
    by (simp add: rstrip_def dropWhile_append3 dropWhile_append)
next
  case False
  then show ?thesis by (auto simp add: rstrip_def dropWhile_append)
qed

lemma recorded_digest_unable:
  "startswith raw ''[unable to digest'' \<Longrightarrow> recorded_digest raw = ''[unable to digest]''"
proof -
  assume "startswith raw ''[unable to digest''"
  then obtain r where r: "raw = ''[unable to digest'' @ r"
    by (auto simp: startswith_iff)
  have "rstrip raw = ''[unable to digest'' @ rstrip r"
    unfolding r by (rule rstrip_append) (simp_all add: is_space_def)
  then have "startswith (rstrip raw) ''[unable to digest''"
    unfolding startswith_iff by blast
  then show ?thesis by (simp add: recorded_digest_def)
qed

lemma recorded_digest_eof: "recorded_digest (fst (readline [])) = []"
  by (simp add: recorded_digest_def readline_def rstrip_def startswith_def)

lemma update_values: "set (map snd (AList.update k v d)) \<subseteq> insert v (set (map snd d))"
  by (induction d) auto

lemma fold_update_values:
  "set (map snd (fold (\<lambda>(n, f). AList.update n (h n f)) rf d)) \<subseteq>
     set (map snd d) \<union> (\<lambda>(n, f). h n f) ` set rf"
proof (induction rf arbitrary: d)
  case Nil
  then show ?case by simp
next
  case (Cons a rf)
  obtain n f where a: "a = (n, f)" by (cases a)
  show ?case
    using Cons.IH [of "AList.update n (h n f) d"] update_values [of n "h n f" d]
    by (auto simp: a)
qed

lemma two_values_card: "finite A \<Longrightarrow> x \<in> A \<Longrightarrow> y \<in> A \<Longrightarrow> x \<noteq> y \<Longrightarrow> 1 < card A"
  using card_le_Suc0_iff_eq [of A] by (auto simp: not_le [symmetric])

lemma read_digests_all_same:
  assumes "rf \<noteq> []" "\<forall>(n, f)\<in>set rf. recorded_digest (fst (readline f)) = v"
  shows "set (map snd (snd (read_digests rf []))) = {v}"
proof -
  have "set (map snd (snd (read_digests rf []))) \<subseteq> {v}"
    unfolding read_digests_fold
    using fold_update_values [of "\<lambda>n f. recorded_digest (fst (readline f))" rf "[]"] assms(2)
    by auto
  moreover have "set (map snd (snd (read_digests rf []))) \<noteq> {}"
    using read_digests_empty_iff [of rf] assms(1) by simp
  ultimately show ?thesis by (auto simp: subset_singleton_iff)
qed


text \<open>
  Claim C2. One call of \<^verbatim>\<open>compare_test\<close> reads one line from every report file,
  collects the set of the distinct recorded digests, and appends exactly one comparison
  carrying the line as its value. The set is empty exactly when there is no
  implementation, and then the result is \<^verbatim>\<open>no_comparison\<close>; with one distinct value
  the result is \<^verbatim>\<open>full_match\<close> and that value is the digest; with more than one it is
  \<^verbatim>\<open>inconsistent\<close> and \<^verbatim>\<open>'digests'\<close> holds the mapping from implementation name to
  digest (as a list with one reference to that mapping per implementation). In each
  case exactly the one matching counter grows by one.
\<close>

theorem compare_test_outcome:
  "let digests = snd (read_digests rf []);
       n = card (set (map snd digests));
       rf' = fst (read_digests rf [])
   in (distinct (map fst rf) \<longrightarrow>
         digests = map (\<lambda>(impl_name, f). (impl_name, recorded_digest (fst (readline f)))) rf) \<and>
      (n = 0 \<longleftrightarrow> rf = []) \<and>
      (n = 0 \<longrightarrow>
         compare_test line rf dcs g =
           (rf', dcs @ [\<lparr>dc_result = no_comparison, dc_digest = None, dc_digests = None,
                         dc_value = line\<rparr>],
            g\<lparr>digest_no_comparison := digest_no_comparison g + 1\<rparr>)) \<and>
      (n = 1 \<longrightarrow>
         (\<exists>v. set (map snd digests) = {v} \<and>
              compare_test line rf dcs g =
                (rf', dcs @ [\<lparr>dc_result = full_match, dc_digest = Some v, dc_digests = None,
                              dc_value = line\<rparr>],
                 g\<lparr>digest_matches := digest_matches g + 1\<rparr>))) \<and>
      (1 < n \<longrightarrow>
         compare_test line rf dcs g =
           (rf', dcs @ [\<lparr>dc_result = inconsistent, dc_digest = None,
                         dc_digests = Some (replicate (length digests) digests),
                         dc_value = line\<rparr>],
            g\<lparr>digest_inconsistencies := digest_inconsistencies g + 1\<rparr>))"
proof -
  define digests where "digests = snd (read_digests rf [])"
  define n where "n = card (set (map snd digests))"
  have b: "n = 0 \<longleftrightarrow> rf = []"
    using read_digests_empty_iff [of rf] by (auto simp: n_def digests_def)
  have d: "\<exists>v. set (map snd digests) = {v}" if "n = 1"
    using that unfolding n_def by (auto simp: card_1_singleton_iff)
  show ?thesis
    unfolding Let_def digests_def [symmetric] n_def [symmetric]
    using b d compare_test_none [of rf line dcs g] compare_test_single [of rf _ line dcs g]
      compare_test_many [of rf line dcs g] read_digests_map [of rf]
    by (auto simp: digests_def n_def)
qed

theorem compare_test_outcome_witness:
  "compare_test ''line1'' [] [] initial_counters =
     ([], [\<lparr>dc_result = no_comparison, dc_digest = None, dc_digests = None,
              dc_value = ''line1''\<rparr>],
      \<lparr>digest_no_comparison = 1, digest_matches = 0, digest_inconsistencies = 0\<rparr>) \<and>
   compare_test ''line1'' [(''A'', [''abc123'' @ [CHR 0x0A]]), (''B'', [''abc123'' @ [CHR 0x0A]])]
       [] initial_counters =
     ([(''A'', []), (''B'', [])],
      [\<lparr>dc_result = full_match, dc_digest = Some ''abc123'', dc_digests = None,
         dc_value = ''line1''\<rparr>],
      \<lparr>digest_no_comparison = 0, digest_matches = 1, digest_inconsistencies = 0\<rparr>) \<and>
   compare_test ''v'' [(''A'', [''d1'' @ [CHR 0x0A]]), (''B'', [''d2'' @ [CHR 0x0A]])]
       [] initial_counters =
     ([(''A'', []), (''B'', [])],
      [\<lparr>dc_result = inconsistent, dc_digest = None,
         dc_digests = Some [[(''A'', ''d1''), (''B'', ''d2'')], [(''A'', ''d1''), (''B'', ''d2'')]],
         dc_value = ''v''\<rparr>],
      \<lparr>digest_no_comparison = 0, digest_matches = 0, digest_inconsistencies = 1\<rparr>)"
  using compare_test_outcome [of "[]" "''line1''" "[]" initial_counters]
    compare_test_outcome [of "[(''A'', [''abc123'' @ [CHR 0x0A]]), (''B'', [''abc123'' @ [CHR 0x0A]])]"
      "''line1''" "[]" initial_counters]
    compare_test_outcome [of "[(''A'', [''d1'' @ [CHR 0x0A]]), (''B'', [''d2'' @ [CHR 0x0A]])]"
      "''v''" "[]" initial_counters]
  by (simp add: Let_def readline_def recorded_digest_def rstrip_def startswith_def is_space_def
        initial_counters_def numeral_2_eq_2)

text \<open>
  Claim C3. A captured line that begins with \<^verbatim>\<open>[unable to digest\<close> is recorded as
  the one value \<^verbatim>\<open>[unable to digest]\<close>, whatever follows the prefix. That value is
  compared like any digest: when every implementation (there is at least one) reports a
  line with the prefix, the outcome is \<^verbatim>\<open>full_match\<close> with that value as the digest,
  and when one implementation reports it and another records something else, the
  outcome is \<^verbatim>\<open>inconsistent\<close>.
\<close>

theorem unable_to_digest_sentinel:
  "(startswith raw ''[unable to digest'' \<longrightarrow> recorded_digest raw = ''[unable to digest]'') \<and>
   (rf \<noteq> [] \<and> (\<forall>(impl_name, f)\<in>set rf. startswith (fst (readline f)) ''[unable to digest'') \<longrightarrow>
      compare_test line rf dcs g =
        (fst (read_digests rf []),
         dcs @ [\<lparr>dc_result = full_match, dc_digest = Some ''[unable to digest]'',
                 dc_digests = None, dc_value = line\<rparr>],
         g\<lparr>digest_matches := digest_matches g + 1\<rparr>)) \<and>
   (distinct (map fst rf) \<and> (a, fa) \<in> set rf \<and> (b, fb) \<in> set rf \<and>
    startswith (fst (readline fa)) ''[unable to digest'' \<and>
    recorded_digest (fst (readline fb)) \<noteq> ''[unable to digest]'' \<longrightarrow>
      (let digests = map (\<lambda>(impl_name, f). (impl_name, recorded_digest (fst (readline f)))) rf
       in map_of digests a = Some ''[unable to digest]'' \<and>
          compare_test line rf dcs g =
            (fst (read_digests rf []),
             dcs @ [\<lparr>dc_result = inconsistent, dc_digest = None,
                     dc_digests = Some (replicate (length rf) digests), dc_value = line\<rparr>],
             g\<lparr>digest_inconsistencies := digest_inconsistencies g + 1\<rparr>)))"
proof (intro conjI impI)
  assume "startswith raw ''[unable to digest''"
  then show "recorded_digest raw = ''[unable to digest]''"
    by (rule recorded_digest_unable)
next
  assume h: "rf \<noteq> [] \<and> (\<forall>(impl_name, f)\<in>set rf. startswith (fst (readline f)) ''[unable to digest'')"
  then have "\<forall>(n, f)\<in>set rf. recorded_digest (fst (readline f)) = ''[unable to digest]''"
    by (auto simp: recorded_digest_unable)
  with h have "set (map snd (snd (read_digests rf []))) = {''[unable to digest]''}"
    by (intro read_digests_all_same) auto
  then show "compare_test line rf dcs g =
        (fst (read_digests rf []),
         dcs @ [\<lparr>dc_result = full_match, dc_digest = Some ''[unable to digest]'',
                 dc_digests = None, dc_value = line\<rparr>],
         g\<lparr>digest_matches := digest_matches g + 1\<rparr>)"
    by (rule compare_test_single)
next
  assume h: "distinct (map fst rf) \<and> (a, fa) \<in> set rf \<and> (b, fb) \<in> set rf \<and>
    startswith (fst (readline fa)) ''[unable to digest'' \<and>
    recorded_digest (fst (readline fb)) \<noteq> ''[unable to digest]''"
  define digests where
    "digests = map (\<lambda>(impl_name, f). (impl_name, recorded_digest (fst (readline f)))) rf"
  have eq: "snd (read_digests rf []) = digests"
    using h by (simp add: read_digests_map digests_def)
  have ra: "recorded_digest (fst (readline fa)) = ''[unable to digest]''"
    using h by (simp add: recorded_digest_unable)
  have "(a, ''[unable to digest]'') \<in> set digests"
    using h ra by (force simp: digests_def)
  moreover have dk: "distinct (map fst digests)"
    using h by (simp add: digests_def comp_def split_def)
  ultimately have m: "map_of digests a = Some ''[unable to digest]''"
    by simp
  have "''[unable to digest]'' \<in> set (map snd digests)"
    using h ra by (force simp: digests_def)
  moreover have "recorded_digest (fst (readline fb)) \<in> set (map snd digests)"
    using h by (force simp: digests_def)
  ultimately have "1 < card (set (map snd digests))"
    using h two_values_card [of "set (map snd digests)" "''[unable to digest]''"
        "recorded_digest (fst (readline fb))"] by auto
  then have "compare_test line rf dcs g =
            (fst (read_digests rf []),
             dcs @ [\<lparr>dc_result = inconsistent, dc_digest = None,
                     dc_digests = Some (replicate (length rf) digests), dc_value = line\<rparr>],
             g\<lparr>digest_inconsistencies := digest_inconsistencies g + 1\<rparr>)"
    using compare_test_many [of rf line dcs g] eq by (simp add: digests_def)
  with m show "let digests = map (\<lambda>(impl_name, f). (impl_name, recorded_digest (fst (readline f)))) rf
       in map_of digests a = Some ''[unable to digest]'' \<and>
          compare_test line rf dcs g =
            (fst (read_digests rf []),
             dcs @ [\<lparr>dc_result = inconsistent, dc_digest = None,
                     dc_digests = Some (replicate (length rf) digests), dc_value = line\<rparr>],
             g\<lparr>digest_inconsistencies := digest_inconsistencies g + 1\<rparr>)"
    by (simp add: digests_def Let_def)
qed

theorem unable_to_digest_sentinel_witness:
  "recorded_digest (''[unable to digest: no such type]'' @ [CHR 0x0A]) = ''[unable to digest]'' \<and>
   compare_test ''v''
       [(''A'', [''[unable to digest x]'' @ [CHR 0x0A]]),
        (''B'', [''[unable to digest: y]'' @ [CHR 0x0A]])] [] initial_counters =
     ([(''A'', []), (''B'', [])],
      [\<lparr>dc_result = full_match, dc_digest = Some ''[unable to digest]'', dc_digests = None,
         dc_value = ''v''\<rparr>],
      \<lparr>digest_no_comparison = 0, digest_matches = 1, digest_inconsistencies = 0\<rparr>) \<and>
   compare_test ''v''
       [(''A'', [''[unable to digest x]'' @ [CHR 0x0A]]), (''B'', [''d2'' @ [CHR 0x0A]])]
       [] initial_counters =
     ([(''A'', []), (''B'', [])],
      [\<lparr>dc_result = inconsistent, dc_digest = None,
         dc_digests = Some [[(''A'', ''[unable to digest]''), (''B'', ''d2'')],
                            [(''A'', ''[unable to digest]''), (''B'', ''d2'')]],
         dc_value = ''v''\<rparr>],
      \<lparr>digest_no_comparison = 0, digest_matches = 0, digest_inconsistencies = 1\<rparr>)"
  using unable_to_digest_sentinel
      [where raw = "''[unable to digest: no such type]'' @ [CHR 0x0A]"
         and rf = "[(''A'', [''[unable to digest x]'' @ [CHR 0x0A]]),
                    (''B'', [''[unable to digest: y]'' @ [CHR 0x0A]])]"
         and line = "''v''" and dcs = "[]" and g = initial_counters]
    unable_to_digest_sentinel
      [where rf = "[(''A'', [''[unable to digest x]'' @ [CHR 0x0A]]), (''B'', [''d2'' @ [CHR 0x0A]])]"
         and a = "''A''" and fa = "[''[unable to digest x]'' @ [CHR 0x0A]]"
         and b = "''B''" and fb = "[''d2'' @ [CHR 0x0A]]"
         and line = "''v''" and dcs = "[]" and g = initial_counters]
  by (simp add: Let_def readline_def recorded_digest_def rstrip_def startswith_def is_space_def
        initial_counters_def)

text \<open>
  One call of \<^verbatim>\<open>compare_test\<close> with an exhausted stream among the report files:
  \<^verbatim>\<open>readline()\<close> gives the empty string, which is what is recorded for that
  implementation.
\<close>

lemma compare_test_exhausted:
  assumes "distinct (map fst rf)" and "(impl_name, []) \<in> set rf"
  shows "let digests = map (\<lambda>(n, f). (n, recorded_digest (fst (readline f)))) rf;
             rf' = fst (read_digests rf [])
         in map_of digests impl_name = Some [] \<and>
            map_of rf' impl_name = Some [] \<and>
            ((\<forall>(n, d)\<in>set digests. d = []) \<longrightarrow>
               compare_test line rf dcs g =
                 (rf', dcs @ [\<lparr>dc_result = full_match, dc_digest = Some [],
                               dc_digests = None, dc_value = line\<rparr>],
                  g\<lparr>digest_matches := digest_matches g + 1\<rparr>)) \<and>
            (\<not> (\<forall>(n, d)\<in>set digests. d = []) \<longrightarrow>
               compare_test line rf dcs g =
                 (rf', dcs @ [\<lparr>dc_result = inconsistent, dc_digest = None,
                               dc_digests = Some (replicate (length rf) digests),
                               dc_value = line\<rparr>],
                  g\<lparr>digest_inconsistencies := digest_inconsistencies g + 1\<rparr>))"
proof -
  define digests where
    "digests = map (\<lambda>(n, f). (n, recorded_digest (fst (readline f)))) rf"
  have eq: "snd (read_digests rf []) = digests"
    using assms by (simp add: read_digests_map digests_def)
  have "(impl_name, []) \<in> set digests"
    using assms(2) recorded_digest_eof by (force simp: digests_def)
  moreover have dk: "distinct (map fst digests)"
    using assms(1) by (simp add: digests_def comp_def split_def)
  ultimately have m: "map_of digests impl_name = Some []"
    by simp
  have mem: "[] \<in> set (map snd digests)"
    using assms(2) recorded_digest_eof by (force simp: digests_def)
  have a: "compare_test line rf dcs g =
                 (fst (read_digests rf []), dcs @ [\<lparr>dc_result = full_match, dc_digest = Some [],
                               dc_digests = None, dc_value = line\<rparr>],
                  g\<lparr>digest_matches := digest_matches g + 1\<rparr>)"
    if "\<forall>(n, d)\<in>set digests. d = []"
  proof -
    have "set (map snd digests) = {[]}" using that mem by auto
    then show ?thesis using compare_test_single [of rf "[]" line dcs g] eq by simp
  qed
  have b: "compare_test line rf dcs g =
                 (fst (read_digests rf []), dcs @ [\<lparr>dc_result = inconsistent, dc_digest = None,
                               dc_digests = Some (replicate (length rf) digests),
                               dc_value = line\<rparr>],
                  g\<lparr>digest_inconsistencies := digest_inconsistencies g + 1\<rparr>)"
    if "\<not> (\<forall>(n, d)\<in>set digests. d = [])"
  proof -
    from that obtain n d where "(n, d) \<in> set digests" "d \<noteq> []" by auto
    then have "d \<in> set (map snd digests)" by force
    then have "1 < card (set (map snd digests))"
      using mem \<open>d \<noteq> []\<close> two_values_card [of "set (map snd digests)" d "[]"] by auto
    then show ?thesis
      using compare_test_many [of rf line dcs g] eq by (simp add: digests_def)
  qed
  have k: "map fst (fst (read_digests rf [])) = map fst rf"
    by (rule read_digests_keys)
  have "(impl_name, []) \<in> set (fst (read_digests rf []))"
    using assms(2) by (force simp: read_digests_files readline_def)
  moreover have "distinct (map fst (fst (read_digests rf [])))"
    using assms(1) by (simp add: read_digests_keys)
  ultimately have c: "map_of (fst (read_digests rf [])) impl_name = Some []"
    by simp
  show ?thesis
    unfolding Let_def digests_def [symmetric] using m a b c by blast
qed

subsection \<open>The report\<close>

lemma compare_test_shape:
  "\<exists>dc g'. compare_test line rf dcs g = (fst (read_digests rf []), dcs @ [dc], g') \<and>
     dc_value dc = line \<and> counted g' = Suc (counted g) \<and>
     digest_matches g \<le> digest_matches g' \<and>
     digest_inconsistencies g \<le> digest_inconsistencies g' \<and>
     digest_no_comparison g \<le> digest_no_comparison g'"
  by (simp add: compare_test_def Let_def split_def counted_def)

lemma compare_lines_shape:
  "compare_lines tf rf dcs g = (rf', dcs', g') \<Longrightarrow>
   map dc_value dcs' = map dc_value dcs @ map rstrip tf \<and>
   counted g' = counted g + length tf \<and>
   digest_matches g \<le> digest_matches g' \<and>
   digest_inconsistencies g \<le> digest_inconsistencies g' \<and>
   digest_no_comparison g \<le> digest_no_comparison g'"
proof (induction tf arbitrary: rf dcs g)
  case Nil
  then show ?case by simp
next
  case (Cons line tf)
  obtain dc g1 where step:
    "compare_test (rstrip line) rf dcs g = (fst (read_digests rf []), dcs @ [dc], g1)"
    "dc_value dc = rstrip line" "counted g1 = Suc (counted g)"
    "digest_matches g \<le> digest_matches g1"
    "digest_inconsistencies g \<le> digest_inconsistencies g1"
    "digest_no_comparison g \<le> digest_no_comparison g1"
    using compare_test_shape [of "rstrip line" rf dcs g] by blast
  from Cons.prems step(1)
  have "compare_lines tf (fst (read_digests rf [])) (dcs @ [dc]) g1 = (rf', dcs', g')"
    by simp
  from Cons.IH [OF this] step(2-) show ?case by simp
qed

lemma open_reports_total:
  "\<forall>impl\<in>set impls. isfile files (dir @ [name impl @ ''.out'']) \<Longrightarrow>
   \<exists>rf'. open_reports files dir impls rf = Inr rf'"
proof (induction impls arbitrary: rf)
  case Nil
  then show ?case by simp
next
  case (Cons impl impls)
  then show ?case
    by (auto simp: open_read_def isfile_def split: option.splits node.splits)
qed

lemma report_result:
  assumes "report impls test_file w = (Inr r, w')"
  shows "\<exists>tf. open_read (fs w) test_file = Inr tf \<and>
            map dc_value (digests r) = map rstrip tf \<and>
            test_count (summary r) = length (digests r) \<and>
            length (digests r) = length tf \<and>
            summary_digest_matches (summary r) + summary_digest_inconsistent (summary r) +
              summary_digest_no_comparison (summary r) = counted (globals w) + length tf \<and>
            digest_matches (globals w) \<le> summary_digest_matches (summary r) \<and>
            digest_inconsistencies (globals w) \<le> summary_digest_inconsistent (summary r) \<and>
            digest_no_comparison (globals w) \<le> summary_digest_no_comparison (summary r) \<and>
            summary_digest_matches (summary r) = digest_matches (globals w') \<and>
            summary_digest_inconsistent (summary r) = digest_inconsistencies (globals w') \<and>
            summary_digest_no_comparison (summary r) = digest_no_comparison (globals w')"
proof -
  from assms obtain rf tf where o: "open_reports (fs w) (cwd w) impls [] = Inr rf"
    and t: "open_read (fs w) test_file = Inr tf"
    by (auto simp: report_def split: sum.splits)
  obtain rf' dcs g where c: "compare_lines tf rf [] (globals w) = (rf', dcs, g)"
    by (cases "compare_lines tf rf [] (globals w)") auto
  from assms o t c have r: "r = \<lparr>digests = dcs,
        summary = \<lparr>test_count = length dcs, summary_digest_matches = digest_matches g,
                   summary_digest_inconsistent = digest_inconsistencies g,
                   summary_digest_no_comparison = digest_no_comparison g\<rparr>\<rparr>"
    and w': "w' = w\<lparr>globals := g\<rparr>"
    by (auto simp: report_def)
  from compare_lines_shape [OF c] have "length dcs = length tf"
    by (metis append_Nil length_map list.simps(8))
  with compare_lines_shape [OF c] t show ?thesis
    by (auto simp: r w' counted_def)
qed

lemma report_total:
  assumes "open_read (fs w) test_file = Inr tf"
      and "\<forall>impl\<in>set impls. isfile (fs w) (cwd w @ [name impl @ ''.out''])"
  shows "\<exists>r w'. report impls test_file w = (Inr r, w')"
proof -
  from open_reports_total [OF assms(2)] obtain rf where
    "open_reports (fs w) (cwd w) impls [] = Inr rf" by blast
  with assms(1) show ?thesis
    by (auto simp: report_def split: prod.splits)
qed

text \<open>
  Claim C8, as amended. When the test file and every implementation's capture file can
  be opened, \<^verbatim>\<open>report\<close> returns a report whose comparisons follow the lines of the test
  file in order, one per line, each carrying as its value that line with its trailing
  whitespace (line terminator included) removed; and \<^verbatim>\<open>test_count\<close> is the length of
  that sequence.
\<close>

theorem report_follows_corpus:
  assumes "open_read (fs w) test_file = Inr tf"
      and "\<forall>impl\<in>set impls. isfile (fs w) (cwd w @ [name impl @ ''.out''])"
  shows "\<exists>r w'. report impls test_file w = (Inr r, w') \<and>
           map dc_value (digests r) = map rstrip tf \<and>
           length (digests r) = length tf \<and>
           test_count (summary r) = length (digests r)"
proof -
  from report_total [OF assms] obtain r w' where r: "report impls test_file w = (Inr r, w')"
    by blast
  from report_result [OF r] assms(1)
  have v: "map dc_value (digests r) = map rstrip tf"
    and "test_count (summary r) = length (digests r)"
    by auto
  moreover from v have "length (digests r) = length tf"
    by (metis length_map)
  ultimately show ?thesis using r by auto
qed

lemma report_world_run:
  "report [example_impl] [''out'', ''tests.ion.head''] report_world =
     (Inr \<lparr>digests = [\<lparr>dc_result = full_match, dc_digest = Some ''d1'', dc_digests = None,
                        dc_value = ''v''\<rparr>],
           summary = \<lparr>test_count = 1, summary_digest_matches = 1,
                      summary_digest_inconsistent = 0, summary_digest_no_comparison = 0\<rparr>\<rparr>,
      report_world\<lparr>globals := \<lparr>digest_no_comparison = 0, digest_matches = 1,
                                 digest_inconsistencies = 0\<rparr>\<rparr>)"
  by (simp add: report_def report_world_def example_impl_def open_read_def compare_test_def
        digest_set_def readline_def recorded_digest_def rstrip_def startswith_def is_space_def
        initial_counters_def)

theorem report_follows_corpus_witness:
  "\<exists>r w'. report [example_impl] [''out'', ''tests.ion.head''] report_world = (Inr r, w') \<and>
      map dc_value (digests r) = [''v''] \<and> length (digests r) = 1 \<and>
      test_count (summary r) = length (digests r)"
  using report_follows_corpus
      [where w = report_world and test_file = "[''out'', ''tests.ion.head'']"
         and tf = "[''v '']" and impls = "[example_impl]"]
  by (simp add: report_world_def example_impl_def open_read_def isfile_def rstrip_def
        is_space_def)

text \<open>
  The claim as the specification words it (the value is the original line) fails on a
  line with trailing whitespace: the test file holds the line \<^verbatim>\<open>"v "\<close> and the
  comparison carries \<^verbatim>\<open>"v"\<close>.
\<close>

theorem report_value_counterexample:
  "open_read (fs report_world) [''out'', ''tests.ion.head''] = Inr [''v ''] \<and>
   fst (report [example_impl] [''out'', ''tests.ion.head''] report_world) =
     Inr \<lparr>digests = [\<lparr>dc_result = full_match, dc_digest = Some ''d1'', dc_digests = None,
                       dc_value = ''v''\<rparr>],
          summary = \<lparr>test_count = 1, summary_digest_matches = 1,
                     summary_digest_inconsistent = 0, summary_digest_no_comparison = 0\<rparr>\<rparr>"
  by (simp add: report_world_run) (simp add: report_world_def open_read_def)

lemma report_world_second_run:
  "report [example_impl] [''out'', ''tests.ion.head'']
     (report_world\<lparr>globals := \<lparr>digest_no_comparison = 0, digest_matches = 1,
                                digest_inconsistencies = 0\<rparr>\<rparr>) =
     (Inr \<lparr>digests = [\<lparr>dc_result = full_match, dc_digest = Some ''d1'', dc_digests = None,
                        dc_value = ''v''\<rparr>],
           summary = \<lparr>test_count = 1, summary_digest_matches = 2,
                      summary_digest_inconsistent = 0, summary_digest_no_comparison = 0\<rparr>\<rparr>,
      report_world\<lparr>globals := \<lparr>digest_no_comparison = 0, digest_matches = 2,
                                 digest_inconsistencies = 0\<rparr>\<rparr>)"
  by (simp add: report_def report_world_def example_impl_def open_read_def compare_test_def
        digest_set_def readline_def recorded_digest_def rstrip_def startswith_def is_space_def
        initial_counters_def)

text \<open>
  Claim C9. The three counters are module-level state that \<^verbatim>\<open>report\<close> reads and
  \<^verbatim>\<open>compare_test\<close> increments, and nothing resets them. For a first \<^verbatim>\<open>report\<close> in a
  process (counters as initialised) the summary satisfies \<^verbatim>\<open>test_count\<close> =
  \<^verbatim>\<open>digest_matches\<close> + \<^verbatim>\<open>digest_inconsistent\<close> + \<^verbatim>\<open>digest_no_comparison\<close>. For a second
  \<^verbatim>\<open>report\<close> in the same process, whatever happened to the file system in between, each
  counter of the summary is at least the first summary's, their sum is the two test
  counts together, while \<^verbatim>\<open>test_count\<close> counts the second file only: the equality holds
  for the second summary only if the first file had no line.
\<close>

theorem counters_never_reset:
  assumes "globals w0 = initial_counters"
      and "report impls1 test_file1 w0 = (Inr r1, w1)"
      and "globals w1' = globals w1"
      and "report impls2 test_file2 w1' = (Inr r2, w2)"
  shows "test_count (summary r1) =
           summary_digest_matches (summary r1) + summary_digest_inconsistent (summary r1) +
           summary_digest_no_comparison (summary r1) \<and>
         summary_digest_matches (summary r2) + summary_digest_inconsistent (summary r2) +
           summary_digest_no_comparison (summary r2) =
           test_count (summary r1) + test_count (summary r2) \<and>
         summary_digest_matches (summary r1) \<le> summary_digest_matches (summary r2) \<and>
         summary_digest_inconsistent (summary r1) \<le> summary_digest_inconsistent (summary r2) \<and>
         summary_digest_no_comparison (summary r1) \<le> summary_digest_no_comparison (summary r2) \<and>
         (test_count (summary r2) =
            summary_digest_matches (summary r2) + summary_digest_inconsistent (summary r2) +
            summary_digest_no_comparison (summary r2)
          \<longleftrightarrow> test_count (summary r1) = 0)"
proof -
  from report_result [OF assms(2)] assms(1)
  have first: "summary_digest_matches (summary r1) + summary_digest_inconsistent (summary r1) +
      summary_digest_no_comparison (summary r1) = test_count (summary r1)"
    and g1: "summary_digest_matches (summary r1) = digest_matches (globals w1)"
      "summary_digest_inconsistent (summary r1) = digest_inconsistencies (globals w1)"
      "summary_digest_no_comparison (summary r1) = digest_no_comparison (globals w1)"
    by (auto simp: counted_def initial_counters_def)
  from report_result [OF assms(4)] assms(3)
  have second: "summary_digest_matches (summary r2) + summary_digest_inconsistent (summary r2) +
      summary_digest_no_comparison (summary r2) = counted (globals w1) + test_count (summary r2)"
    and mono: "digest_matches (globals w1) \<le> summary_digest_matches (summary r2)"
      "digest_inconsistencies (globals w1) \<le> summary_digest_inconsistent (summary r2)"
      "digest_no_comparison (globals w1) \<le> summary_digest_no_comparison (summary r2)"
    by auto
  have "counted (globals w1) = test_count (summary r1)"
    using first g1 by (simp add: counted_def)
  with first second mono g1 show ?thesis by auto
qed

theorem counters_never_reset_witness:
  "\<exists>r1 w1 r2 w2.
      report [example_impl] [''out'', ''tests.ion.head''] report_world = (Inr r1, w1) \<and>
      report [example_impl] [''out'', ''tests.ion.head''] w1 = (Inr r2, w2) \<and>
      test_count (summary r1) = 1 \<and> summary_digest_matches (summary r1) = 1 \<and>
      test_count (summary r2) = 1 \<and> summary_digest_matches (summary r2) = 2 \<and>
      test_count (summary r2) \<noteq>
        summary_digest_matches (summary r2) + summary_digest_inconsistent (summary r2) +
        summary_digest_no_comparison (summary r2)"
proof -
  have g: "globals report_world = initial_counters"
    by (simp add: report_world_def)
  from counters_never_reset [OF g report_world_run refl report_world_second_run]
  have "test_count \<lparr>test_count = 1, summary_digest_matches = 2,
                    summary_digest_inconsistent = 0, summary_digest_no_comparison = 0\<rparr> \<noteq>
        summary_digest_matches \<lparr>test_count = 1, summary_digest_matches = 2,
                    summary_digest_inconsistent = 0, summary_digest_no_comparison = 0\<rparr> +
        summary_digest_inconsistent \<lparr>test_count = 1, summary_digest_matches = 2,
                    summary_digest_inconsistent = 0, summary_digest_no_comparison = 0\<rparr> +
        summary_digest_no_comparison \<lparr>test_count = 1, summary_digest_matches = 2,
                    summary_digest_inconsistent = 0, summary_digest_no_comparison = 0\<rparr>"
    by simp
  with report_world_run report_world_second_run show ?thesis
    by (intro exI conjI) (assumption | simp)+
qed

subsection \<open>A capture file shorter than the test file\<close>

lemma readline_rest: "snd (readline f) = drop 1 f"
  by (cases f) (simp_all add: readline_def)

lemma compare_test_streams:
  "fst (compare_test line rf dcs g) = map (\<lambda>(n, f). (n, drop 1 f)) rf"
  using compare_test_shape [of line rf dcs g]
  by (auto simp: read_digests_files readline_rest)

lemma compare_lines_extends:
  "compare_lines tf rf dcs g = (rf', dcs', g') \<Longrightarrow>
   \<exists>new. dcs' = dcs @ new \<and> length new = length tf"
proof (induction tf arbitrary: rf dcs g)
  case Nil
  then show ?case by simp
next
  case (Cons line tf)
  obtain dc g1 where step:
    "compare_test (rstrip line) rf dcs g = (fst (read_digests rf []), dcs @ [dc], g1)"
    using compare_test_shape [of "rstrip line" rf dcs g] by blast
  with Cons.prems
  have "compare_lines tf (fst (read_digests rf [])) (dcs @ [dc]) g1 = (rf', dcs', g')"
    by simp
  from Cons.IH [OF this] show ?case by auto
qed

lemma compare_lines_nth:
  "compare_lines tf rf dcs g = (rf', dcs', g') \<Longrightarrow> k < length tf \<Longrightarrow>
   \<exists>before g1 rf2 g2.
     compare_test (rstrip (tf ! k)) (map (\<lambda>(n, f). (n, drop k f)) rf) before g1 =
       (rf2, before @ [dcs' ! (length dcs + k)], g2)"
proof (induction tf arbitrary: rf dcs g k)
  case Nil
  then show ?case by simp
next
  case (Cons line tf)
  obtain dc g1 where step:
    "compare_test (rstrip line) rf dcs g = (fst (read_digests rf []), dcs @ [dc], g1)"
    using compare_test_shape [of "rstrip line" rf dcs g] by blast
  have rf1: "fst (read_digests rf []) = map (\<lambda>(n, f). (n, drop 1 f)) rf"
    using compare_test_streams [of "rstrip line" rf dcs g] step by simp
  from Cons.prems(1) step
  have rest: "compare_lines tf (fst (read_digests rf [])) (dcs @ [dc]) g1 = (rf', dcs', g')"
    by simp
  show ?case
  proof (cases k)
    case 0
    from compare_lines_extends [OF rest] obtain new where "dcs' = (dcs @ [dc]) @ new"
      by blast
    then have "dcs' ! (length dcs + k) = dc"
      using 0 by (simp add: nth_append)
    moreover have "map (\<lambda>(n, f). (n, drop k f)) rf = rf"
      using 0 by (simp add: split_def)
    ultimately show ?thesis
      using step 0 by (metis nth_Cons_0)
  next
    case (Suc j)
    with Cons.prems(2) have j: "j < length tf" by simp
    from Cons.IH [OF rest j] obtain before g3 rf2 g2 where
      "compare_test (rstrip (tf ! j))
         (map (\<lambda>(n, f). (n, drop j f)) (fst (read_digests rf []))) before g3 =
         (rf2, before @ [dcs' ! (length (dcs @ [dc]) + j)], g2)"
      by blast
    moreover have "map (\<lambda>(n, f). (n, drop j f)) (fst (read_digests rf [])) =
                   map (\<lambda>(n, f). (n, drop k f)) rf"
      by (simp add: rf1 Suc split_def comp_def)
    ultimately show ?thesis
      using Suc by (auto simp: add.commute)
  qed
qed

lemma open_reports_map:
  assumes "\<forall>i\<in>set impls. isfile files (dir @ [name i @ ''.out''])"
  shows "\<exists>rf. open_reports files dir impls acc = Inr rf \<and>
           (distinct (map fst acc) \<longrightarrow> distinct (map fst rf)) \<and>
           (\<forall>n. map_of rf n =
                  (if n \<in> name ` set impls
                   then Some (case open_read files (dir @ [n @ ''.out'']) of
                                Inr ls \<Rightarrow> ls | Inl err \<Rightarrow> [])
                   else map_of acc n))"
  using assms
proof (induction impls arbitrary: acc)
  case Nil
  then show ?case by simp
next
  case (Cons impl impls)
  from Cons.prems obtain f where f: "open_read files (dir @ [name impl @ ''.out'']) = Inr f"
    by (auto simp: open_read_def isfile_def split: option.splits node.splits)
  from Cons.prems have "\<forall>i\<in>set impls. isfile files (dir @ [name i @ ''.out''])"
    by simp
  from Cons.IH [OF this, of "AList.update (name impl) f acc"] obtain rf where
    rf: "open_reports files dir impls (AList.update (name impl) f acc) = Inr rf"
    and d: "distinct (map fst (AList.update (name impl) f acc)) \<longrightarrow> distinct (map fst rf)"
    and m: "\<forall>n. map_of rf n =
                  (if n \<in> name ` set impls
                   then Some (case open_read files (dir @ [n @ ''.out'']) of
                                Inr ls \<Rightarrow> ls | Inl err \<Rightarrow> [])
                   else map_of (AList.update (name impl) f acc) n)"
    by blast
  have "open_reports files dir (impl # impls) acc = Inr rf"
    using f rf by simp
  moreover have "distinct (map fst acc) \<longrightarrow> distinct (map fst rf)"
    using d by (simp add: distinct_update)
  moreover have "\<forall>n. map_of rf n =
                  (if n \<in> name ` set (impl # impls)
                   then Some (case open_read files (dir @ [n @ ''.out'']) of
                                Inr ls \<Rightarrow> ls | Inl err \<Rightarrow> [])
                   else map_of acc n)"
    using m f by (auto simp: update_conv')
  ultimately show ?case by blast
qed

text \<open>
  Claim C10. Let the capture file of an implementation have fewer lines than the test
  file, and take a test-vector line past the end of that capture file (line \<open>k\<close>,
  counted from 0). \<^verbatim>\<open>report\<close> does not fail: it returns one comparison per test line, and
  by the time its loop reaches line \<open>k\<close> the stream of that implementation is exhausted,
  so \<^verbatim>\<open>readline()\<close> gives the empty string and the digest recorded for the implementation
  is the empty string. The comparison of line \<open>k\<close> is \<^verbatim>\<open>full_match\<close> (on the empty string)
  exactly when the digest recorded for every implementation on that line is empty, and
  otherwise \<^verbatim>\<open>inconsistent\<close>, with the mapping from every implementation name to its
  recorded digest.
\<close>

theorem short_capture_stream:
  assumes "open_read (fs w) test_file = Inr tf"
      and "\<forall>i\<in>set impls. isfile (fs w) (cwd w @ [name i @ ''.out''])"
      and "impl \<in> set impls" and "length (capture w (name impl)) \<le> k" and "k < length tf"
  shows "\<exists>r w'. report impls test_file w = (Inr r, w') \<and> length (digests r) = length tf \<and>
           (let recorded = (\<lambda>nm. recorded_digest (fst (readline (drop k (capture w nm)))))
            in recorded (name impl) = [] \<and>
               ((\<forall>i\<in>set impls. recorded (name i) = []) \<longrightarrow>
                  digests r ! k =
                    \<lparr>dc_result = full_match, dc_digest = Some [], dc_digests = None,
                     dc_value = rstrip (tf ! k)\<rparr>) \<and>
               (\<not> (\<forall>i\<in>set impls. recorded (name i) = []) \<longrightarrow>
                  (\<exists>ds. digests r ! k =
                          \<lparr>dc_result = inconsistent, dc_digest = None,
                           dc_digests = Some (replicate (length ds) ds),
                           dc_value = rstrip (tf ! k)\<rparr> \<and>
                        distinct (map fst ds) \<and>
                        (\<forall>nm. map_of ds nm =
                           (if nm \<in> name ` set impls then Some (recorded nm) else None)))))"
proof -
  define recorded where
    "recorded = (\<lambda>nm. recorded_digest (fst (readline (drop k (capture w nm)))))"
  from open_reports_map [OF assms(2), of "[]"] obtain rf where
    rf: "open_reports (fs w) (cwd w) impls [] = Inr rf"
    and drf: "distinct (map fst rf)"
    and mrf: "\<forall>n. map_of rf n = (if n \<in> name ` set impls then Some (capture w n) else None)"
    by (auto simp: capture_def)
  obtain rf' dcs g where cl: "compare_lines tf rf [] (globals w) = (rf', dcs, g)"
    by (metis surj_pair)
  define r where "r = \<lparr>digests = dcs,
        summary = \<lparr>test_count = length dcs, summary_digest_matches = digest_matches g,
                   summary_digest_inconsistent = digest_inconsistencies g,
                   summary_digest_no_comparison = digest_no_comparison g\<rparr>\<rparr>"
  have rep: "report impls test_file w = (Inr r, w\<lparr>globals := g\<rparr>)"
    using rf assms(1) cl by (simp add: report_def r_def)
  have len: "length (digests r) = length tf"
    using compare_lines_extends [OF cl] by (auto simp: r_def)
  define rfk where "rfk = map (\<lambda>(n, f). (n, drop k f)) rf"
  from compare_lines_nth [OF cl assms(5)] obtain before g1 rf2 g2 where
    ct: "compare_test (rstrip (tf ! k)) rfk before g1 = (rf2, before @ [dcs ! k], g2)"
    by (auto simp: rfk_def)
  have drfk: "distinct (map fst rfk)"
    using drf by (simp add: rfk_def comp_def split_def)
  have mem_rf: "(n, f) \<in> set rf \<longleftrightarrow> n \<in> name ` set impls \<and> f = capture w n" for n f
  proof -
    have "(n, f) \<in> set rf \<longleftrightarrow> map_of rf n = Some f"
      using drf by simp
    with mrf show ?thesis by auto
  qed
  have "(name impl, capture w (name impl)) \<in> set rf"
    using assms(3) by (simp add: mem_rf)
  then have "(name impl, drop k (capture w (name impl))) \<in> set rfk"
    by (force simp: rfk_def)
  then have ex: "(name impl, []) \<in> set rfk"
    using assms(4) by simp
  define ds where "ds = map (\<lambda>(n, f). (n, recorded_digest (fst (readline f)))) rfk"
  have ds_rf: "ds = map (\<lambda>(n, f). (n, recorded n)) rf"
  proof -
    have "ds = map (\<lambda>(n, f). (n, recorded_digest (fst (readline (drop k f))))) rf"
      by (simp add: ds_def rfk_def comp_def split_def)
    also have "\<dots> = map (\<lambda>(n, f). (n, recorded n)) rf"
      by (rule map_cong) (auto simp: mem_rf recorded_def)
    finally show ?thesis .
  qed
  have dds: "distinct (map fst ds)"
    using drf by (simp add: ds_rf comp_def split_def)
  have mds: "map_of ds nm = (if nm \<in> name ` set impls then Some (recorded nm) else None)" for nm
  proof (cases "nm \<in> name ` set impls")
    case True
    then have "(nm, recorded nm) \<in> set ds"
      by (force simp: ds_rf mem_rf)
    with dds True show ?thesis by simp
  next
    case False
    then have "nm \<notin> fst ` set ds"
      by (auto simp: ds_rf mem_rf)
    with False show ?thesis by (simp add: map_of_eq_None_iff)
  qed
  have set_rf: "set rf = (\<lambda>n. (n, capture w n)) ` name ` set impls"
    using mem_rf by (auto simp: image_iff)
  have set_ds: "set ds = (\<lambda>n. (n, recorded n)) ` name ` set impls"
    unfolding ds_rf set_map set_rf by (simp add: image_image)
  have all: "(\<forall>(n, d)\<in>set ds. d = []) \<longleftrightarrow> (\<forall>i\<in>set impls. recorded (name i) = [])"
    unfolding set_ds by simp
  have lens: "length rfk = length ds"
    by (simp add: ds_def)
  note exh = compare_test_exhausted [OF drfk ex, of "rstrip (tf ! k)" before g1,
      unfolded Let_def, folded ds_def]
  have zero: "recorded (name impl) = []"
    using assms(4) by (simp add: recorded_def recorded_digest_eof)
  have a: "dcs ! k = \<lparr>dc_result = full_match, dc_digest = Some [], dc_digests = None,
                       dc_value = rstrip (tf ! k)\<rparr>"
    if "\<forall>i\<in>set impls. recorded (name i) = []"
    using exh that all ct by auto
  have b: "dcs ! k = \<lparr>dc_result = inconsistent, dc_digest = None,
                       dc_digests = Some (replicate (length ds) ds),
                       dc_value = rstrip (tf ! k)\<rparr>"
    if "\<not> (\<forall>i\<in>set impls. recorded (name i) = [])"
    using exh that all ct lens by auto
  show ?thesis
    unfolding Let_def recorded_def [symmetric]
    using rep len zero a b dds mds by (auto simp: r_def)
qed

lemma short_capture_world_report:
  "fst (report [example_impl, example_impl_java] [''out'', ''tests.ion.head'']
          short_capture_world) =
     Inr \<lparr>digests =
            [\<lparr>dc_result = full_match, dc_digest = Some ''d1'', dc_digests = None,
               dc_value = ''v1''\<rparr>,
             \<lparr>dc_result = inconsistent, dc_digest = None,
               dc_digests = Some [[(''ion-c'', []), (''ion-java'', ''d2'')],
                                  [(''ion-c'', []), (''ion-java'', ''d2'')]],
               dc_value = ''v2''\<rparr>,
             \<lparr>dc_result = full_match, dc_digest = Some [], dc_digests = None,
               dc_value = ''v3''\<rparr>],
          summary = \<lparr>test_count = 3, summary_digest_matches = 2,
                     summary_digest_inconsistent = 1, summary_digest_no_comparison = 0\<rparr>\<rparr>"
  by (simp add: report_def short_capture_world_def example_impl_java_def example_impl_def
        open_read_def compare_test_def digest_set_def impl_digests_of_def readline_def
        recorded_digest_def rstrip_def startswith_def is_space_def initial_counters_def)

theorem short_capture_stream_witness:
  "\<exists>r w'. report [example_impl, example_impl_java] [''out'', ''tests.ion.head'']
             short_capture_world = (Inr r, w') \<and>
      length (capture short_capture_world ''ion-c'') = 1 \<and>
      length (digests r) = 3 \<and>
      digests r ! 1 =
        \<lparr>dc_result = inconsistent, dc_digest = None,
          dc_digests = Some [[(''ion-c'', []), (''ion-java'', ''d2'')],
                             [(''ion-c'', []), (''ion-java'', ''d2'')]],
          dc_value = ''v2''\<rparr> \<and>
      digests r ! 2 =
        \<lparr>dc_result = full_match, dc_digest = Some [], dc_digests = None, dc_value = ''v3''\<rparr>"
proof -
  let ?tf = "[''v1'' @ [CHR 0x0A], ''v2'' @ [CHR 0x0A], ''v3'' @ [CHR 0x0A]]"
  have h: "open_read (fs short_capture_world) [''out'', ''tests.ion.head''] = Inr ?tf"
    "\<forall>i\<in>set [example_impl, example_impl_java].
        isfile (fs short_capture_world) (cwd short_capture_world @ [name i @ ''.out''])"
    "example_impl \<in> set [example_impl, example_impl_java]"
    "length (capture short_capture_world (name example_impl)) \<le> 1"
    "1 < length ?tf"
    by (simp_all add: short_capture_world_def example_impl_def example_impl_java_def
          open_read_def isfile_def capture_def)
  from short_capture_stream [OF h] obtain r w' where
    rep: "report [example_impl, example_impl_java] [''out'', ''tests.ion.head'']
            short_capture_world = (Inr r, w')"
    and len: "length (digests r) = length ?tf"
    by blast
  have c: "length (capture short_capture_world ''ion-c'') = 1"
    by (simp add: short_capture_world_def capture_def open_read_def)
  from rep short_capture_world_report have "r = \<lparr>digests =
            [\<lparr>dc_result = full_match, dc_digest = Some ''d1'', dc_digests = None,
               dc_value = ''v1''\<rparr>,
             \<lparr>dc_result = inconsistent, dc_digest = None,
               dc_digests = Some [[(''ion-c'', []), (''ion-java'', ''d2'')],
                                  [(''ion-c'', []), (''ion-java'', ''d2'')]],
               dc_value = ''v2''\<rparr>,
             \<lparr>dc_result = full_match, dc_digest = Some [], dc_digests = None,
               dc_value = ''v3''\<rparr>],
          summary = \<lparr>test_count = 3, summary_digest_matches = 2,
                     summary_digest_inconsistent = 1, summary_digest_no_comparison = 0\<rparr>\<rparr>"
    by simp
  with rep len c show ?thesis
    by (intro exI [of _ r] exI [of _ w']) simp
qed

subsection \<open>File-system calls\<close>

lemma rename_other: "\<not> prefix dst p \<Longrightarrow> \<not> prefix src p \<Longrightarrow> rename src dst files p = files p"
  by (simp add: rename_def)

lemma move_other:
  assumes "move src dst files = Inr files'" "\<not> prefix dst p" "\<not> prefix src p"
  shows "files' p = files p"
proof -
  have "\<not> prefix (dst @ [last src]) p"
    using assms(2) by (meson prefix_order.trans prefixI)
  with assms show ?thesis
    by (auto simp: move_def Let_def rename_other split: if_splits)
qed

lemma makedirs_keeps:
  "makedirs q files = Inr files' \<Longrightarrow> files p \<noteq> None \<Longrightarrow> files' p = files p"
  by (auto simp: makedirs_def split: if_splits)

lemma makedirs_other:
  "makedirs q files = Inr files' \<Longrightarrow> \<not> prefix p q \<Longrightarrow> files' p = files p"
  by (auto simp: makedirs_def split: if_splits)

lemma makedirs_creates:
  "makedirs q files = Inr files' \<Longrightarrow> q \<noteq> [] \<Longrightarrow> files' q = Some Dir"
  by (auto simp: makedirs_def path_exists_def split: if_splits)

lemma makedirs_succeeds:
  "\<not> path_exists files q \<Longrightarrow> \<not> list_ex (isfile files) (prefixes q) \<Longrightarrow>
   \<exists>files'. makedirs q files = Inr files'"
  by (simp add: makedirs_def)

lemma ensure_dir:
  assumes "\<not> list_ex (isfile files) (prefixes q)" "q \<noteq> []"
  shows "\<exists>files'. (if \<not> isdir files q then makedirs q files else Inr files) = Inr files' \<and>
           isdir files' q \<and> (\<forall>p. files p \<noteq> None \<longrightarrow> files' p = files p) \<and>
           (\<forall>p. \<not> prefix p q \<longrightarrow> files' p = files p)"
proof (cases "isdir files q")
  case True
  then show ?thesis by simp
next
  case False
  have "\<not> isfile files q"
    using assms(1) by (auto simp: list_ex_iff)
  with False have "\<not> path_exists files q"
    by (auto simp: isdir_def isfile_def path_exists_def split: option.splits node.splits)
  with assms show ?thesis
    using False by (auto simp: makedirs_def isdir_def path_exists_def)
qed

lemma log_call_fs: "p \<noteq> l \<Longrightarrow> fs (log_call l ev w) p = fs w p"
  by (simp add: log_call_def)

lemma log_call_fields:
  "events (log_call l ev w) = events w @ [ev]"
  "cwd (log_call l ev w) = cwd w"
  "TOOL_DEPENDENCIES (log_call l ev w) = TOOL_DEPENDENCIES w"
  "globals (log_call l ev w) = globals w"
  by (simp_all add: log_call_def)

lemma log_call_isfile: "isfile (fs (log_call l ev w)) l"
  by (simp add: log_call_def isfile_def)

lemma identifier_not_reserved:
  "nm @ ''_'' @ commit \<noteq> ''tmp''" "nm @ ''_'' @ commit \<noteq> ''logs''"
proof -
  have "CHR ''_'' \<in> set (nm @ ''_'' @ commit)" by simp
  moreover have "CHR ''_'' \<notin> set ''tmp''" "CHR ''_'' \<notin> set ''logs''" by simp_all
  ultimately show "nm @ ''_'' @ commit \<noteq> ''tmp''" "nm @ ''_'' @ commit \<noteq> ''logs''"
    by metis+
qed

subsection \<open>Resolving a resource\<close>

lemma checkout_revision_effect:
  assumes "checkout_revision e git l self w = (r, w')"
  shows "(\<forall>p. p \<noteq> l \<longrightarrow> fs w' p = fs w p) \<and> cwd w' = cwd w \<and>
         TOOL_DEPENDENCIES w' = TOOL_DEPENDENCIES w \<and> globals w' = globals w \<and>
         (isfile (fs w) l \<longrightarrow> isfile (fs w') l)"
  using assms
  by (auto simp: checkout_revision_def Let_def log_call_def isfile_def
           split: option.splits if_splits)

lemma promote_other:
  assumes "promote tdir tlog bdir blog files = (r, files')"
      and "\<not> prefix bdir p" "\<not> prefix blog p" "\<not> prefix tdir p" "\<not> prefix tlog p"
  shows "files' p = files p"
proof (cases "path_exists files bdir")
  case True
  with assms(1) show ?thesis by (simp add: promote_def)
next
  case False
  show ?thesis
  proof (cases "move tlog blog files")
    case (Inl err)
    with assms(1) False show ?thesis by (simp add: promote_def)
  next
    case m1: (Inr files1)
    have f1: "files1 p = files p"
      using move_other [OF m1 assms(3) assms(5)] .
    show ?thesis
    proof (cases "move tdir bdir files1")
      case (Inl err)
      with assms(1) False m1 f1 show ?thesis by (simp add: promote_def)
    next
      case m2: (Inr files2)
      have "files2 p = files1 p"
        using move_other [OF m2 assms(2) assms(4)] .
      with assms(1) False m1 m2 f1 show ?thesis by (simp add: promote_def)
    qed
  qed
qed

lemma promote_reuse: "path_exists files bdir \<Longrightarrow> promote tdir tlog bdir blog files = (Inr (), files)"
  by (simp add: promote_def)

lemma resolve_commit_None:
  "git_head e (location self) (revision self) = None \<Longrightarrow>
   resolve_commit e git tdir tlog self w =
     (Inl (CalledProcessError (GitRevParse git)), self,
      w\<lparr>events := events w @ [GitRevParse git]\<rparr>)"
  by (simp add: resolve_commit_def)

lemma resolve_commit_logs_fail:
  assumes "git_head e (location self) (revision self) = Some out"
      and "(if \<not> isdir (fs w) (output_root self @ [''build'', ''logs''])
            then makedirs (output_root self @ [''build'', ''logs'']) (fs w)
            else Inr (fs w)) = Inl err"
  shows "resolve_commit e git tdir tlog self w =
     (Inl err,
      self\<lparr>ident := Some (name self @ ''_'' @ strip out),
           build_dir := Some (output_root self @ [''build'', name self @ ''_'' @ strip out])\<rparr>,
      w\<lparr>events := events w @ [GitRevParse git]\<rparr>)"
  using assms by (auto simp: resolve_commit_def Let_def split: if_splits)

lemma resolve_commit_Some:
  assumes "git_head e (location self) (revision self) = Some out"
      and "(if \<not> isdir (fs w) (output_root self @ [''build'', ''logs''])
            then makedirs (output_root self @ [''build'', ''logs'']) (fs w)
            else Inr (fs w)) = Inr files"
      and "promote tdir tlog (output_root self @ [''build'', name self @ ''_'' @ strip out])
             (output_root self @ [''build'', ''logs'', (name self @ ''_'' @ strip out) @ ''.txt''])
             files = (r, files')"
  shows "resolve_commit e git tdir tlog self w =
     (r,
      self\<lparr>ident := Some (name self @ ''_'' @ strip out),
           build_dir := Some (output_root self @ [''build'', name self @ ''_'' @ strip out]),
           build_log := Some (output_root self @
              [''build'', ''logs'', (name self @ ''_'' @ strip out) @ ''.txt''])\<rparr>,
      w\<lparr>events := events w @ [GitRevParse git], fs := files'\<rparr>)"
  using assms by (auto simp: resolve_commit_def Let_def split: if_splits)

lemma resolve_commit_keeps_root:
  assumes "resolve_commit e git (R @ [nm]) (R @ [''tmp_log.txt'']) self w = (r, self', w')"
      and "R = output_root self @ [''build'', ''tmp'']"
      and "isdir (fs w) R"
  shows "isdir (fs w') R"
proof (cases "git_head e (location self) (revision self)")
  case None
  from resolve_commit_None [OF this, where git = git and tdir = "R @ [nm]"
      and tlog = "R @ [''tmp_log.txt'']" and w = w] assms
  show ?thesis by auto
next
  case (Some out)
  define i where "i = name self @ ''_'' @ strip out"
  have i: "i \<noteq> ''tmp''" unfolding i_def by (rule identifier_not_reserved)
  let ?logs = "output_root self @ [''build'', ''logs'']"
  show ?thesis
  proof (cases "if \<not> isdir (fs w) ?logs then makedirs ?logs (fs w) else Inr (fs w)")
    case (Inl err)
    from resolve_commit_logs_fail [OF Some Inl, where git = git and tdir = "R @ [nm]"
        and tlog = "R @ [''tmp_log.txt'']"] assms
    show ?thesis by auto
  next
    case (Inr files)
    have f2: "files R = Some Dir"
      using Inr assms(3) makedirs_keeps [of ?logs "fs w" files R]
      by (auto simp: isdir_def split: if_splits)
    obtain r' files' where p: "promote (R @ [nm]) (R @ [''tmp_log.txt''])
             (output_root self @ [''build'', name self @ ''_'' @ strip out])
             (output_root self @ [''build'', ''logs'', (name self @ ''_'' @ strip out) @ ''.txt''])
             files = (r', files')"
      by (metis surj_pair)
    have "files' R = files R"
      using i by (intro promote_other [OF p]) (auto simp: assms(2) i_def)
    with resolve_commit_Some [OF Some Inr p] assms(1) f2 show ?thesis
      by (auto simp: isdir_def)
  qed
qed

lemma git_clone_revision_try_keeps_root_made:
  assumes "git_clone_revision_try e self R w = (r, self', w')"
      and "R = output_root self @ [''build'', ''tmp'']"
      and f1: "(if \<not> isdir (fs w) R then makedirs R (fs w) else Inr (fs w)) = Inr files1"
  shows "isdir (fs w') R"
proof -
  have "R \<noteq> []" by (simp add: assms(2))
  with f1 have d1: "isdir files1 R"
    using makedirs_creates [of R "fs w" files1] by (auto simp: isdir_def split: if_splits)
  define w1 where "w1 = w\<lparr>fs := files1\<rparr>"
  show ?thesis
  proof (cases "map_of (TOOL_DEPENDENCIES w) ''git''")
    case None
    with assms(1) f1 d1 show ?thesis
      by (auto simp: git_clone_revision_try_def Let_def)
  next
    case (Some git)
    define w2 where "w2 = log_call (R @ [''tmp_log.txt'']) (GitClone git (location self) (R @ [name self])) w1"
    have d2: "isdir (fs w2) R"
      using d1 by (simp add: w2_def w1_def log_call_def isdir_def)
    show ?thesis
    proof (cases "git_clone_ok e (location self)")
      case False
      with assms(1) f1 Some d2 show ?thesis
        by (auto simp: git_clone_revision_try_def Let_def w2_def w1_def)
    next
      case True
      define w3 where "w3 = w2\<lparr>fs := (fs w2)(R @ [name self] \<mapsto> Dir), cwd := R @ [name self]\<rparr>"
      have c: "chdir (R @ [name self]) (w2\<lparr>fs := (fs w2)(R @ [name self] \<mapsto> Dir)\<rparr>) = Inr w3"
        by (simp add: chdir_def isdir_def w3_def)
      have d3: "isdir (fs w3) R"
        using d2 by (simp add: w3_def isdir_def)
      obtain r4 w4 where co: "checkout_revision e git (R @ [''tmp_log.txt'']) self w3 = (r4, w4)"
        by (cases "checkout_revision e git (R @ [''tmp_log.txt'']) self w3") auto
      have d4: "isdir (fs w4) R"
        using checkout_revision_effect [OF co] d3 by (simp add: isdir_def)
      show ?thesis
      proof (cases r4)
        case (Inl err)
        with assms(1) f1 Some True c co d4 show ?thesis
          by (auto simp: git_clone_revision_try_def Let_def w2_def w1_def)
      next
        case (Inr u)
        with assms(1) f1 Some True c co
        have "resolve_commit e git (R @ [name self]) (R @ [''tmp_log.txt'']) self w4 = (r, self', w')"
          by (auto simp: git_clone_revision_try_def Let_def w2_def w1_def)
        from resolve_commit_keeps_root [OF this assms(2) d4] show ?thesis .
      qed
    qed
  qed
qed

lemma git_clone_revision_try_keeps_root:
  assumes "git_clone_revision_try e self R w = (r, self', w')"
      and "R = output_root self @ [''build'', ''tmp'']"
      and "\<not> list_ex (isfile (fs w)) (prefixes R)"
  shows "isdir (fs w') R"
proof -
  have "R \<noteq> []" by (simp add: assms(2))
  from ensure_dir [OF assms(3) this] obtain files1 where
    "(if \<not> isdir (fs w) R then makedirs R (fs w) else Inr (fs w)) = Inr files1"
    by blast
  from git_clone_revision_try_keeps_root_made [OF assms(1) assms(2) this] show ?thesis .
qed




lemmas resolution_defs =
  git_clone_revision_def git_clone_revision_try_def resolve_commit_def
  checkout_revision_def promote_def move_def rename_def makedirs_def rmtree_def
  chdir_def log_call_def isdir_def isfile_def path_exists_def Let_def strip_def rstrip_def
  is_space_def

lemmas example_defs =
  example_env_def example_impl_def example_world_def example_build_def
  example_source_build_def example_config_def built_world_def initial_counters_def




lemma checkout_revision_ok:
  assumes "\<forall>rv. revision self = Some rv \<longrightarrow>
             git_checkout_ok e (location self) rv \<and> git_submodule_ok e (location self) rv"
  shows "\<exists>w'. checkout_revision e git l self w = (Inr (), w') \<and>
           events w' = events w @ checkout_events git self \<and>
           (\<forall>p. p \<noteq> l \<longrightarrow> fs w' p = fs w p) \<and> cwd w' = cwd w \<and>
           TOOL_DEPENDENCIES w' = TOOL_DEPENDENCIES w \<and> globals w' = globals w"
  using assms
  by (auto simp: checkout_revision_def checkout_events_def Let_def log_call_def
           split: option.splits)

lemma git_clone_revision_success:
  assumes "git_clone_revision e self w = (Inr (), self', w')"
  shows "\<exists>out. git_head e (location self) (revision self) = Some out \<and>
           self' = self\<lparr>ident := Some (name self @ ''_'' @ strip out),
                        build_dir := Some (output_root self @ [''build'', name self @ ''_'' @ strip out]),
                        build_log := Some (output_root self @
                          [''build'', ''logs'', (name self @ ''_'' @ strip out) @ ''.txt''])\<rparr>"
proof -
  let ?R = "output_root self @ [''build'', ''tmp'']"
  obtain r1 self1 w1 where t: "git_clone_revision_try e self ?R w = (r1, self1, w1)"
    by (metis surj_pair)
  with assms have r1: "r1 = Inr ()" and s1: "self1 = self'"
    by (auto simp: git_clone_revision_def split: sum.splits)
  from t [unfolded r1 s1] obtain git w4 where
    rc: "resolve_commit e git (?R @ [name self]) (?R @ [''tmp_log.txt'']) self w4 = (Inr (), self', w1)"
    by (auto simp: git_clone_revision_try_def Let_def
             split: sum.splits option.splits if_splits prod.splits)
  then show ?thesis
    by (auto simp: resolve_commit_def Let_def split: option.splits sum.splits prod.splits)
qed

lemma git_clone_revision_reuse:
  assumes tool: "map_of (TOOL_DEPENDENCIES w) ''git'' = Some git"
      and clone: "git_clone_ok e (location self)"
      and checkout: "\<forall>rv. revision self = Some rv \<longrightarrow>
             git_checkout_ok e (location self) rv \<and> git_submodule_ok e (location self) rv"
      and head: "git_head e (location self) (revision self) = Some out"
      and free: "\<not> list_ex (isfile (fs w)) (prefixes (output_root self @ [''build'', ''tmp'']))"
      and logs: "isdir (fs w) (output_root self @ [''build'', ''logs''])"
      and built: "path_exists (fs w) (output_root self @ [''build'', name self @ ''_'' @ strip out])"
  shows "\<exists>w'. git_clone_revision e self w =
           (Inr (),
            self\<lparr>ident := Some (name self @ ''_'' @ strip out),
                 build_dir := Some (output_root self @ [''build'', name self @ ''_'' @ strip out]),
                 build_log := Some (output_root self @
                   [''build'', ''logs'', (name self @ ''_'' @ strip out) @ ''.txt''])\<rparr>, w') \<and>
           events w' = events w @
             [GitClone git (location self) (output_root self @ [''build'', ''tmp'', name self])] @
             checkout_events git self @ [GitRevParse git] \<and>
           (\<forall>p. \<not> prefix (output_root self @ [''build'', ''tmp'']) p \<and>
                \<not> prefix p (output_root self @ [''build'', ''tmp'']) \<longrightarrow> fs w' p = fs w p) \<and>
           (\<forall>p. prefix (output_root self @ [''build'', ''tmp'']) p \<longrightarrow> fs w' p = None) \<and>
           TOOL_DEPENDENCIES w' = TOOL_DEPENDENCIES w \<and> globals w' = globals w"
proof -
  let ?R = "output_root self @ [''build'', ''tmp'']"
  let ?logs = "output_root self @ [''build'', ''logs'']"
  let ?i = "name self @ ''_'' @ strip out"
  let ?bdir = "output_root self @ [''build'', ?i]"
  let ?blog = "output_root self @ [''build'', ''logs'', ?i @ ''.txt'']"
  let ?tlog = "?R @ [''tmp_log.txt'']"
  let ?tdir = "?R @ [name self]"
  have i: "?i \<noteq> ''tmp''" by (rule identifier_not_reserved)
  have "?R \<noteq> []" by simp
  from ensure_dir [OF free this] obtain files1 where
    f1: "(if \<not> isdir (fs w) ?R then makedirs ?R (fs w) else Inr (fs w)) = Inr files1"
    and d1: "isdir files1 ?R"
    and k1: "\<forall>p. fs w p \<noteq> None \<longrightarrow> files1 p = fs w p"
    and o1: "\<forall>p. \<not> prefix p ?R \<longrightarrow> files1 p = fs w p" by blast
  define w1 where "w1 = w\<lparr>fs := files1\<rparr>"
  define w2 where "w2 = log_call ?tlog (GitClone git (location self) ?tdir) w1"
  define w3 where "w3 = w2\<lparr>fs := (fs w2)(?tdir \<mapsto> Dir), cwd := ?tdir\<rparr>"
  have c: "chdir ?tdir (w2\<lparr>fs := (fs w2)(?tdir \<mapsto> Dir)\<rparr>) = Inr w3"
    by (simp add: chdir_def isdir_def w3_def)
  from checkout_revision_ok [OF checkout, of git ?tlog w3] obtain w4 where
    co: "checkout_revision e git ?tlog self w3 = (Inr (), w4)"
    and ev4: "events w4 = events w3 @ checkout_events git self"
    and fs4: "\<forall>p. p \<noteq> ?tlog \<longrightarrow> fs w4 p = fs w3 p"
    and rest4: "TOOL_DEPENDENCIES w4 = TOOL_DEPENDENCIES w3" "globals w4 = globals w3"
    by blast
  have outside: "fs w4 p = fs w p" if "\<not> prefix ?R p" "\<not> prefix p ?R" for p
  proof -
    have "p \<noteq> ?tlog" "p \<noteq> ?tdir" using that(1) by auto
    then have "fs w4 p = files1 p"
      using fs4 by (simp add: w3_def w2_def w1_def log_call_def)
    with o1 that(2) show ?thesis by simp
  qed
  have l4: "isdir (fs w4) ?logs"
    using outside [of ?logs] logs by (simp add: isdir_def)
  have b4: "path_exists (fs w4) ?bdir"
    using outside [of ?bdir] built i by (simp add: path_exists_def)
  have el: "(if \<not> isdir (fs w4) ?logs then makedirs ?logs (fs w4) else Inr (fs w4)) = Inr (fs w4)"
    using l4 by simp
  have rc: "resolve_commit e git ?tdir ?tlog self w4 =
     (Inr (), self\<lparr>ident := Some ?i, build_dir := Some ?bdir, build_log := Some ?blog\<rparr>,
      w4\<lparr>events := events w4 @ [GitRevParse git], fs := fs w4\<rparr>)"
    by (rule resolve_commit_Some [OF head el promote_reuse [OF b4]])
  have tool1: "map_of (TOOL_DEPENDENCIES w1) ''git'' = Some git"
    using tool by (simp add: w1_def)
  have t: "git_clone_revision_try e self ?R w =
     (Inr (), self\<lparr>ident := Some ?i, build_dir := Some ?bdir, build_log := Some ?blog\<rparr>,
      w4\<lparr>events := events w4 @ [GitRevParse git], fs := fs w4\<rparr>)"
    using f1 tool clone c [unfolded w2_def w1_def] co rc
    by (simp add: git_clone_revision_try_def Let_def)
  have d4: "isdir (fs w4) ?R"
    using git_clone_revision_try_keeps_root [OF t refl free] by simp
  define w' where "w' = w4\<lparr>events := events w4 @ [GitRevParse git],
                           fs := (\<lambda>q. if prefix ?R q then None else fs w4 q)\<rparr>"
  have g: "git_clone_revision e self w =
     (Inr (), self\<lparr>ident := Some ?i, build_dir := Some ?bdir, build_log := Some ?blog\<rparr>, w')"
    using t d4 by (simp add: git_clone_revision_def rmtree_def w'_def cong: if_cong)
  have "events w' = events w @ [GitClone git (location self) ?tdir] @
          checkout_events git self @ [GitRevParse git]"
    by (simp add: w'_def ev4 w3_def w2_def w1_def log_call_def)
  moreover have "\<forall>p. \<not> prefix ?R p \<and> \<not> prefix p ?R \<longrightarrow> fs w' p = fs w p"
    using outside by (simp add: w'_def)
  moreover have "\<forall>p. prefix ?R p \<longrightarrow> fs w' p = None"
    by (simp add: w'_def)
  moreover have "TOOL_DEPENDENCIES w' = TOOL_DEPENDENCIES w" "globals w' = globals w"
    by (simp_all add: w'_def rest4 w3_def w2_def w1_def log_call_def)
  ultimately show ?thesis using g by auto
qed

text \<open>
  Claim C1, as amended. Take a resolution whose git steps succeed and resolve to a commit
  for which the build directory \<^verbatim>\<open><output_root>/build/<name>_<commit>\<close> already exists.
  Then \<^verbatim>\<open>__git_clone_revision\<close> discards the staging clone (nothing is left at or
  below the staging root) and leaves everything at and below the existing build
  directory as it was, and \<^verbatim>\<open>install\<close> goes on to call the
  install procedure of the resource again, once, in that directory. The identifier is
  \<^verbatim>\<open><name>_<commit>\<close>: another successful resolution of the same name under the same
  output root has the same identifier, and the same build directory, exactly when it
  resolves to the same commit.
\<close>

theorem existing_build_kept_install_rerun:
  assumes tool: "map_of (TOOL_DEPENDENCIES w) ''git'' = Some git"
      and clone: "git_clone_ok e (location self)"
      and checkout: "\<forall>rv. revision self = Some rv \<longrightarrow>
             git_checkout_ok e (location self) rv \<and> git_submodule_ok e (location self) rv"
      and head: "git_head e (location self) (revision self) = Some out"
      and free: "\<not> list_ex (isfile (fs w)) (prefixes (output_root self @ [''build'', ''tmp'']))"
      and logs: "isdir (fs w) (output_root self @ [''build'', ''logs''])"
      and built: "isdir (fs w) (output_root self @ [''build'', name self @ ''_'' @ strip out])"
  shows "let i = name self @ ''_'' @ strip out;
             bdir = output_root self @ [''build'', i];
             blog = output_root self @ [''build'', ''logs'', i @ ''.txt''];
             self' = self\<lparr>ident := Some i, build_dir := Some bdir, build_log := Some blog\<rparr>
         in (\<exists>w1. git_clone_revision e self w = (Inr (), self', w1) \<and>
                  (\<forall>p. prefix bdir p \<longrightarrow> fs w1 p = fs w p) \<and>
                  (\<forall>p. prefix (output_root self @ [''build'', ''tmp'']) p \<longrightarrow>
                       fs w1 p = None) \<and>
                  (\<exists>r w'. install e self w = (r, self', w') \<and>
                     events w' = events w @
                       [GitClone git (location self) (output_root self @ [''build'', ''tmp'', name self])] @
                       checkout_events git self @
                       [GitRevParse git, Install (name self) (Some blog)] \<and>
                     fs w' = snd (build_install (build self) (Some blog) bdir (fs w1)))) \<and>
            (\<forall>e2 self2 w2 s2 w2' out2.
                name self2 = name self \<and> output_root self2 = output_root self \<and>
                git_head e2 (location self2) (revision self2) = Some out2 \<and>
                git_clone_revision e2 self2 w2 = (Inr (), s2, w2') \<longrightarrow>
                (ident s2 = Some i \<longleftrightarrow> strip out2 = strip out) \<and>
                (build_dir s2 = Some bdir \<longleftrightarrow> strip out2 = strip out))"
proof -
  let ?R = "output_root self @ [''build'', ''tmp'']"
  let ?i = "name self @ ''_'' @ strip out"
  let ?bdir = "output_root self @ [''build'', ?i]"
  let ?blog = "output_root self @ [''build'', ''logs'', ?i @ ''.txt'']"
  let ?self' = "self\<lparr>ident := Some ?i, build_dir := Some ?bdir, build_log := Some ?blog\<rparr>"
  have i: "?i \<noteq> ''tmp''" by (rule identifier_not_reserved)
  have built': "path_exists (fs w) ?bdir"
    using built by (simp add: isdir_def path_exists_def)
  from git_clone_revision_reuse [OF tool clone checkout head free logs built']
  obtain w1 where g: "git_clone_revision e self w = (Inr (), ?self', w1)"
    and ev1: "events w1 = events w @ [GitClone git (location self) (?R @ [name self])] @
                checkout_events git self @ [GitRevParse git]"
    and out1: "\<forall>p. \<not> prefix ?R p \<and> \<not> prefix p ?R \<longrightarrow> fs w1 p = fs w p"
    and gone: "\<forall>p. prefix ?R p \<longrightarrow> fs w1 p = None"
    by auto
  have keep: "\<forall>p. prefix ?bdir p \<longrightarrow> fs w1 p = fs w p"
  proof (intro allI impI)
    fix p assume "prefix ?bdir p"
    then obtain xs where p: "p = ?bdir @ xs" by (auto simp: prefix_def)
    have "\<not> prefix ?R p" "\<not> prefix p ?R"
      using i by (auto simp: p)
    with out1 show "fs w1 p = fs w p" by blast
  qed
  have d: "isdir (fs w1) ?bdir"
    using keep built by (simp add: isdir_def)
  obtain ok files where b: "build_install (build self) (Some ?blog) ?bdir (fs w1) = (ok, files)"
    by (metis surj_pair)
  have inst: "\<exists>r w'. install e self w = (r, ?self', w') \<and>
                events w' = events w1 @ [Install (name self) (Some ?blog)] \<and> fs w' = files"
    using g d b
    by (auto simp: install_def chdir_def identifier_of_def Let_def split: if_splits)
  have first: "\<exists>w1. git_clone_revision e self w = (Inr (), ?self', w1) \<and>
                  (\<forall>p. prefix ?bdir p \<longrightarrow> fs w1 p = fs w p) \<and>
                  (\<forall>p. prefix ?R p \<longrightarrow> fs w1 p = None) \<and>
                  (\<exists>r w'. install e self w = (r, ?self', w') \<and>
                     events w' = events w @
                       [GitClone git (location self) (output_root self @ [''build'', ''tmp'', name self])] @
                       checkout_events git self @
                       [GitRevParse git, Install (name self) (Some ?blog)] \<and>
                     fs w' = snd (build_install (build self) (Some ?blog) ?bdir (fs w1)))"
    using g keep gone inst ev1 b by (intro exI [of _ w1]) auto
  have second: "(ident s2 = Some ?i \<longleftrightarrow> strip out2 = strip out) \<and>
                (build_dir s2 = Some ?bdir \<longleftrightarrow> strip out2 = strip out)"
    if "name self2 = name self \<and> output_root self2 = output_root self \<and>
        git_head e2 (location self2) (revision self2) = Some out2 \<and>
        git_clone_revision e2 self2 w2 = (Inr (), s2, w2')"
    for e2 self2 w2 s2 w2' out2
  proof -
    from git_clone_revision_success [of e2 self2 w2 s2 w2'] that
    have "ident s2 = Some (name self @ ''_'' @ strip out2)"
      and "build_dir s2 = Some (output_root self @ [''build'', name self @ ''_'' @ strip out2])"
      by auto
    then show ?thesis by auto
  qed
  show ?thesis
    unfolding Let_def using first second by blast
qed

theorem existing_build_kept_install_rerun_witness:
  "git_clone_revision example_env example_impl built_world =
     (Inr (),
      example_impl\<lparr>ident := Some ''ion-c_abc1234'',
                   build_dir := Some [''out'', ''build'', ''ion-c_abc1234''],
                   build_log := Some [''out'', ''build'', ''logs'', ''ion-c_abc1234.txt'']\<rparr>,
      snd (snd (git_clone_revision example_env example_impl built_world))) \<and>
   fs (snd (snd (git_clone_revision example_env example_impl built_world)))
      [''out'', ''build'', ''ion-c_abc1234'', ''ionhash''] = Some (File []) \<and>
   events (snd (snd (install example_env example_impl built_world))) =
     [GitClone ''git'' ''/src/ion-c'' [''out'', ''build'', ''tmp'', ''ion-c''],
      GitCheckout ''git'' ''master'', GitSubmoduleUpdate ''git'', GitRevParse ''git'',
      Install ''ion-c'' (Some [''out'', ''build'', ''logs'', ''ion-c_abc1234.txt''])]"
proof -
  have h: "git_head example_env (location example_impl) (revision example_impl) =
             Some (''abc1234'' @ [CHR 0x0A])"
    by (simp add: example_defs)
  have "map_of (TOOL_DEPENDENCIES built_world) ''git'' = Some ''git''"
    "git_clone_ok example_env (location example_impl)"
    "\<forall>rv. revision example_impl = Some rv \<longrightarrow>
       git_checkout_ok example_env (location example_impl) rv \<and>
       git_submodule_ok example_env (location example_impl) rv"
    "\<not> list_ex (isfile (fs built_world)) (prefixes (output_root example_impl @ [''build'', ''tmp'']))"
    "isdir (fs built_world) (output_root example_impl @ [''build'', ''logs''])"
    "isdir (fs built_world)
       (output_root example_impl @
        [''build'', name example_impl @ ''_'' @ strip (''abc1234'' @ [CHR 0x0A])])"
    by (simp_all add: example_defs isfile_def isdir_def strip_def rstrip_def is_space_def)
  from existing_build_kept_install_rerun [OF this(1) this(2) this(3) h this(4) this(5) this(6)]
  show ?thesis
    by (auto simp: Let_def example_impl_def built_world_def checkout_events_def
          strip_def rstrip_def is_space_def)
qed

text \<open>
  The claim as the specification words it fails: a first resolution of \<^verbatim>\<open>ion-c\<close> leaves
  the build directory, and a second resolution of the same name, location and revision
  in the state the first one left calls the install procedure again.
\<close>

theorem install_rerun_counterexample:
  "isdir (fs (snd (snd (install example_env example_impl example_world))))
     [''out'', ''build'', ''ion-c_abc1234''] \<and>
   events (snd (snd (install example_env example_impl example_world))) =
     [GitClone ''git'' ''/src/ion-c'' [''out'', ''build'', ''tmp'', ''ion-c''],
      GitCheckout ''git'' ''master'', GitSubmoduleUpdate ''git'', GitRevParse ''git'',
      Install ''ion-c'' (Some [''out'', ''build'', ''logs'', ''ion-c_abc1234.txt''])] \<and>
   events (snd (snd (install example_env example_impl
                       (snd (snd (install example_env example_impl example_world)))))) =
     [GitClone ''git'' ''/src/ion-c'' [''out'', ''build'', ''tmp'', ''ion-c''],
      GitCheckout ''git'' ''master'', GitSubmoduleUpdate ''git'', GitRevParse ''git'',
      Install ''ion-c'' (Some [''out'', ''build'', ''logs'', ''ion-c_abc1234.txt'']),
      GitClone ''git'' ''/src/ion-c'' [''out'', ''build'', ''tmp'', ''ion-c''],
      GitCheckout ''git'' ''master'', GitSubmoduleUpdate ''git'', GitRevParse ''git'',
      Install ''ion-c'' (Some [''out'', ''build'', ''logs'', ''ion-c_abc1234.txt''])]"
  by (simp add: install_def identifier_of_def resolution_defs example_defs)

subsection \<open>The driver\<close>

lemma check_tools_result:
  "check_tools e deps evs = (r, evs') \<Longrightarrow>
   (\<exists>checks. evs' = evs @ checks \<and> (\<forall>ev\<in>set checks. \<exists>n p. ev = ToolCheck n p)) \<and>
   (r = None \<longleftrightarrow> (\<forall>(n, p)\<in>set deps. tool_runs e p)) \<and>
   (\<forall>err. r = Some err \<longrightarrow> (\<exists>n p. err = ToolNotFound n \<and> (n, p) \<in> set deps \<and> \<not> tool_runs e p))"
proof (induction deps arbitrary: evs)
  case Nil
  then show ?case by simp
next
  case (Cons a deps)
  obtain n p where a: "a = (n, p)" by (cases a)
  show ?case
  proof (cases "tool_runs e p")
    case True
    with Cons.prems a have "check_tools e deps (evs @ [ToolCheck n p]) = (r, evs')"
      by simp
    from Cons.IH [OF this] True a show ?thesis
      by auto
  next
    case False
    with Cons.prems a show ?thesis by auto
  qed
qed

lemma tokenize_description_named:
  "tokenize_description d True = Inr t \<Longrightarrow> \<exists>nm loc rv. t = Named nm loc rv"
  by (auto simp: tokenize_description_def Let_def split: if_splits)

lemma parse_implementations_error:
  "parse_implementations builds ds root = Inl err \<Longrightarrow>
   err = InvalidDescription \<or> (\<exists>n. err = NoInstaller n)"
proof (induction ds)
  case Nil
  then show ?case by simp
next
  case (Cons d ds)
  show ?case
  proof (cases "tokenize_description d True")
    case (Inl e1)
    with Cons.prems show ?thesis
      by (auto simp: tokenize_description_def Let_def split: if_splits)
  next
    case (Inr t)
    from tokenize_description_named [OF this] obtain nm loc rv where t: "t = Named nm loc rv"
      by blast
    with Cons Inr show ?thesis
      by (auto simp: IonResource_def split: sum.splits option.splits)
  qed
qed

lemma check_tool_dependencies_fails:
  assumes "\<exists>(n, p)\<in>set (override_tools args (map fst (TOOL_DEPENDENCIES w)) (TOOL_DEPENDENCIES w)).
             \<not> tool_runs e p"
  shows "\<exists>n p checks w'.
           check_tool_dependencies e args w = (Some (ToolNotFound n), w') \<and>
           (n, p) \<in> set (override_tools args (map fst (TOOL_DEPENDENCIES w)) (TOOL_DEPENDENCIES w)) \<and>
           \<not> tool_runs e p \<and>
           events w' = events w @ checks \<and> (\<forall>ev\<in>set checks. \<exists>n p. ev = ToolCheck n p) \<and>
           fs w' = fs w \<and> cwd w' = cwd w \<and> globals w' = globals w"
proof -
  let ?deps = "override_tools args (map fst (TOOL_DEPENDENCIES w)) (TOOL_DEPENDENCIES w)"
  obtain r evs where c: "check_tools e ?deps (events w) = (r, evs)"
    by (metis surj_pair)
  from check_tools_result [OF c] assms obtain n p checks where
    "r = Some (ToolNotFound n)" "(n, p) \<in> set ?deps" "\<not> tool_runs e p"
    "evs = events w @ checks" "\<forall>ev\<in>set checks. \<exists>n p. ev = ToolCheck n p"
    by (cases r) auto
  with c show ?thesis
    by (auto simp: check_tool_dependencies_def Let_def)
qed

text \<open>
  Claim C4, as amended. In a run that is neither \<^verbatim>\<open>--help\<close> nor \<^verbatim>\<open>--list\<close>, the tool
  check comes after the output root is created and the implementation descriptions are
  tokenized and their resources constructed, and before any resolution or installation.
  So when a declared tool cannot be started, the run ends with an error and has started
  nothing but tool checks (no clone, checkout, install, test generation or
  implementation run), has not changed the working directory and has touched the file
  system at most to create the output root; the error is the tool's
  \<^verbatim>\<open>"<name> not found"\<close> unless creating the output root or a description (malformed, or
  naming an unknown resource) failed first.
\<close>

theorem tool_check_precedes_installation:
  assumes "\<not> arg_help args" and "\<not> arg_list args"
      and "\<exists>(n, p)\<in>set (override_tools args (map fst (TOOL_DEPENDENCIES w)) (TOOL_DEPENDENCIES w)).
             \<not> tool_runs e p"
      and "ion_hash_test_driver c e args w = (r, w')"
  shows "(\<exists>checks. events w' = events w @ checks \<and>
                   (\<forall>ev\<in>set checks. \<exists>n p. ev = ToolCheck n p)) \<and>
         cwd w' = cwd w \<and> globals w' = globals w \<and>
         (\<forall>p. \<not> prefix p (arg_output_dir args) \<longrightarrow> fs w' p = fs w p) \<and>
         (r = Inl (OSError (arg_output_dir args)) \<or> r = Inl InvalidDescription \<or>
          (\<exists>n. r = Inl (NoInstaller n)) \<or>
          (\<exists>n p. r = Inl (ToolNotFound n) \<and>
             (n, p) \<in> set (override_tools args (map fst (TOOL_DEPENDENCIES w))
                             (TOOL_DEPENDENCIES w)) \<and>
             \<not> tool_runs e p))"
proof -
  let ?root = "arg_output_dir args"
  let ?made = "if \<not> path_exists (fs w) ?root then makedirs ?root (fs w) else Inr (fs w)"
  show ?thesis
  proof (cases ?made)
    case (Inl err)
    then have "err = OSError ?root"
      by (auto simp: makedirs_def split: if_splits)
    with assms Inl show ?thesis
      by (auto simp: ion_hash_test_driver_def Let_def)
  next
    case (Inr files)
    have files: "\<forall>p. \<not> prefix p ?root \<longrightarrow> files p = fs w p"
      using Inr makedirs_other [of ?root "fs w" files] by (auto split: if_splits)
    define w1 where "w1 = w\<lparr>fs := files\<rparr>"
    let ?parsed = "case parse_implementations (ION_BUILDS c) (arg_implementation args) ?root of
                     Inl err \<Rightarrow> Inl err
                   | Inr given \<Rightarrow>
                       (if \<not> arg_local_only args
                        then (case parse_implementations (ION_BUILDS c)
                                     (ION_IMPLEMENTATIONS c) ?root of
                                Inl err \<Rightarrow> Inl err
                              | Inr defaults \<Rightarrow> Inr (given @ defaults))
                        else Inr given)"
    show ?thesis
    proof (cases ?parsed)
      case (Inl err)
      then have e: "err = InvalidDescription \<or> (\<exists>n. err = NoInstaller n)"
        by (auto dest: parse_implementations_error split: sum.splits if_splits)
      from Inl assms Inr have "r = Inl err" "w' = w1"
        by (auto simp: ion_hash_test_driver_def Let_def w1_def split: sum.splits if_splits)
      with e files show ?thesis by (auto simp: w1_def)
    next
      case impls: (Inr implementations)
      have deps1: "\<exists>(n, p)\<in>set (override_tools args (map fst (TOOL_DEPENDENCIES w1))
                                   (TOOL_DEPENDENCIES w1)). \<not> tool_runs e p"
        using assms(3) by (simp add: w1_def)
      from check_tool_dependencies_fails [OF deps1] obtain n p checks w2 where
        ct: "check_tool_dependencies e args w1 = (Some (ToolNotFound n), w2)"
        and np: "(n, p) \<in> set (override_tools args (map fst (TOOL_DEPENDENCIES w))
                                 (TOOL_DEPENDENCIES w))" "\<not> tool_runs e p"
        and w2: "events w2 = events w1 @ checks" "\<forall>ev\<in>set checks. \<exists>n p. ev = ToolCheck n p"
          "fs w2 = fs w1" "cwd w2 = cwd w1" "globals w2 = globals w1"
        by (auto simp: w1_def)
      from impls assms Inr ct have "r = Inl (ToolNotFound n)" "w' = w2"
        by (auto simp: ion_hash_test_driver_def Let_def w1_def split: sum.splits if_splits)
      with np w2 files show ?thesis by (auto simp: w1_def)
    qed
  qed
qed

lemmas driver_defs =
  ion_hash_test_driver_def check_tool_dependencies_def tokenize_description_def
  IonResource_def makedirs_def path_exists_def isfile_def Let_def

theorem tool_check_precedes_installation_witness:
  "fst (ion_hash_test_driver example_config no_tools_env example_arguments example_world) =
     Inl (ToolNotFound ''git'') \<and>
   events (snd (ion_hash_test_driver example_config no_tools_env example_arguments
                  example_world)) = [ToolCheck ''git'' ''git''] \<and>
   fs (snd (ion_hash_test_driver example_config no_tools_env example_arguments example_world))
      [''out''] = Some Dir"
proof -
  have "\<not> arg_help example_arguments" "\<not> arg_list example_arguments"
    "\<exists>(n, p)\<in>set (override_tools example_arguments (map fst (TOOL_DEPENDENCIES example_world))
                     (TOOL_DEPENDENCIES example_world)). \<not> tool_runs no_tools_env p"
    by (simp_all add: example_arguments_def example_world_def no_tools_env_def)
  note h = this
  have pairs: "\<And>x::(error + outcome) \<times> world. x = (fst x, snd x)"
    by simp
  from tool_check_precedes_installation [OF h pairs, of example_config]
  show ?thesis
    by (simp add: driver_defs example_defs example_arguments_def no_tools_env_def)
qed

text \<open>
  The claim as the specification words it fails: with no tool that can be started, a
  run that names an unknown implementation ends with \<^verbatim>\<open>"No installer for nope."\<close>, raised
  while the resources are constructed, after the output root has been created and
  before any tool has been checked.
\<close>

theorem tool_check_counterexample:
  "\<not> tool_runs no_tools_env ''git'' \<and>
   TOOL_DEPENDENCIES example_world = [(''git'', ''git'')] \<and>
   fst (ion_hash_test_driver example_config no_tools_env unknown_name_arguments example_world) =
     Inl (NoInstaller ''nope'') \<and>
   events (snd (ion_hash_test_driver example_config no_tools_env unknown_name_arguments
                  example_world)) = [] \<and>
   fs example_world [''out''] = None \<and>
   fs (snd (ion_hash_test_driver example_config no_tools_env unknown_name_arguments
              example_world)) [''out''] = Some Dir"
  by (simp add: driver_defs example_defs example_arguments_def unknown_name_arguments_def
        no_tools_env_def)

end
